theory Spec2Isabelle
  imports Main "HOL-Library.Char_ord" "HOL-Library.List_Lexorder"
    "HOL-Library.Product_Lexorder" "HOL-Library.Option_ord" "HOL-Library.Multiset"
begin

section \<open>Route-type normalisation\<close>

text \<open>
  \<^verbatim>\<open>normalize_route_type\<close> of \<^verbatim>\<open>backend/gtfs_parser.py\<close>: a dictionary of the
  extended codes, looked up with \<^verbatim>\<open>type_mapping.get(route_type, route_type if route_type <= 7
  else 3)\<close>. Python's integers are unbounded, so the codes are of type \<open>int\<close>.
\<close>

definition type_mapping :: "(int \<times> int) list" where
  "type_mapping =
     [(100, 2), (101, 2), (102, 2), (103, 2), (106, 2), (109, 2),
      (400, 1), (401, 1),
      (700, 3), (702, 3), (704, 3),
      (900, 0),
      (1000, 4)]"

definition normalize_route_type :: "int \<Rightarrow> int" where
  "normalize_route_type route_type =
     (case map_of type_mapping route_type of
        Some basic \<Rightarrow> basic
      | None \<Rightarrow> (if route_type \<le> 7 then route_type else 3))"

section \<open>Rows, cells and exceptions\<close>

text \<open>
  Every table is read with \<^verbatim>\<open>csv.DictReader\<close>, which yields one dictionary per data
  line, keyed by the header's column names. A cell is a \<^verbatim>\<open>str\<close>, or \<^verbatim>\<open>None\<close> where the
  line has fewer fields than the header (the reader's \<^verbatim>\<open>restval\<close>). A column that the
  header does not have is a missing key. A \<^verbatim>\<open>str\<close> is modelled by the list of its
  characters; the order on \<open>string\<close> is the lexicographic one, as Python's is.
\<close>

datatype cell = PyNone | PyStr string

type_synonym row = "string \<rightharpoonup> cell"

datatype exc = KeyError | ValueError | TypeError | OSError

text \<open>Truth value of a cell, as \<^verbatim>\<open>if x:\<close> and \<^verbatim>\<open>x or y\<close> take it.\<close>

fun truthy :: "cell \<Rightarrow> bool" where
  "truthy PyNone = False"
| "truthy (PyStr s) = (s \<noteq> [])"

text \<open>\<^verbatim>\<open>row[key]\<close>: a missing key raises \<^verbatim>\<open>KeyError\<close>.\<close>

definition getitem :: "row \<Rightarrow> string \<Rightarrow> exc + cell" where
  "getitem r key = (case r key of None \<Rightarrow> Inl KeyError | Some c \<Rightarrow> Inr c)"

text \<open>
  \<^verbatim>\<open>int(x)\<close> and \<^verbatim>\<open>float(x)\<close> of a cell: \<^verbatim>\<open>None\<close> raises \<^verbatim>\<open>TypeError\<close>, a string
  that is no numeral raises \<^verbatim>\<open>ValueError\<close>. Which strings are numerals is the Python
  runtime's affair: the two readers \<open>int_of\<close> and \<open>float_of\<close> are parameters of the
  model, and so is the type \<open>'f\<close> of floating-point values.
\<close>

definition py_int :: "(string \<Rightarrow> int option) \<Rightarrow> cell \<Rightarrow> exc + int" where
  "py_int int_of c =
     (case c of
        PyNone \<Rightarrow> Inl TypeError
      | PyStr s \<Rightarrow> (case int_of s of None \<Rightarrow> Inl ValueError | Some n \<Rightarrow> Inr n))"

definition py_float :: "(string \<Rightarrow> 'f option) \<Rightarrow> cell \<Rightarrow> exc + 'f" where
  "py_float float_of c =
     (case c of
        PyNone \<Rightarrow> Inl TypeError
      | PyStr s \<Rightarrow> (case float_of s of None \<Rightarrow> Inl ValueError | Some x \<Rightarrow> Inr x))"

text \<open>
  Statements in sequence: the first exception raised ends the sequence.
\<close>

definition bind_exc :: "exc + 'a \<Rightarrow> ('a \<Rightarrow> exc + 'b) \<Rightarrow> exc + 'b" where
  "bind_exc m f = (case m of Inl e \<Rightarrow> Inl e | Inr x \<Rightarrow> f x)"

text \<open>
  The loop \<^verbatim>\<open>for row in reader: try: ... except (...): continue\<close>. The body either
  returns the updated state or raises before it has changed anything (in each table's
  body the store is the last statement that can raise); a caught exception skips the row,
  any other one leaves the loop.
\<close>

fun for_rows :: "(exc \<Rightarrow> bool) \<Rightarrow> (row \<Rightarrow> 's \<Rightarrow> exc + 's) \<Rightarrow> row list \<Rightarrow> 's \<Rightarrow> exc + 's" where
  "for_rows caught body [] s = Inr s"
| "for_rows caught body (r # rs) s =
     (case body r s of
        Inr s' \<Rightarrow> for_rows caught body rs s'
      | Inl e \<Rightarrow> (if caught e then for_rows caught body rs s else Inl e))"

text \<open>\<^verbatim>\<open>except (KeyError, ValueError)\<close> and \<^verbatim>\<open>except KeyError\<close>.\<close>

definition key_or_value_error :: "exc \<Rightarrow> bool" where
  "key_or_value_error e = (e = KeyError \<or> e = ValueError)"

definition key_error :: "exc \<Rightarrow> bool" where
  "key_error e = (e = KeyError)"

text \<open>
  A \<^verbatim>\<open>defaultdict(list)\<close> keeps its keys in insertion order, and the code iterates over
  \<^verbatim>\<open>items()\<close>: it is an association list. \<^verbatim>\<open>d[k].append(v)\<close> extends the list of an
  existing key in place and puts a new key last.
\<close>

fun dict_append :: "'k \<Rightarrow> 'v \<Rightarrow> ('k \<times> 'v list) list \<Rightarrow> ('k \<times> 'v list) list" where
  "dict_append k v [] = [(k, [v])]"
| "dict_append k v ((k', vs) # d) =
     (if k = k' then (k', vs @ [v]) # d else (k', vs) # dict_append k v d)"

section \<open>The parser's state\<close>

record 'f Stop =
  stop_id :: cell
  stop_name :: cell
  stop_lat :: 'f
  stop_lng :: 'f

record 'f Route =
  route_id :: cell
  route_name :: cell
  route_type :: int
  stop_ids :: "cell list"
  shape_coords :: "('f \<times> 'f) list"

text \<open>
  The fields of \<^verbatim>\<open>GtfsParser\<close>, the leading underscore dropped. \<open>stops\<close>,
  \<open>route_info\<close>, \<open>trip_to_route\<close>, \<open>trip_to_shape\<close> and \<open>shapes\<close> are only looked
  up by key; \<open>trip_stops\<close> is iterated.
\<close>

record 'f parser =
  stops :: "cell \<rightharpoonup> 'f Stop"
  routes :: "'f Route list"
  route_info :: "cell \<rightharpoonup> (cell \<times> int)"
  trip_to_route :: "cell \<rightharpoonup> cell"
  trip_to_shape :: "cell \<rightharpoonup> cell"
  trip_stops :: "(cell \<times> (int \<times> cell) list) list"
  shapes :: "cell \<rightharpoonup> ('f \<times> 'f) list"

definition new_parser :: "'f parser" where
  "new_parser =
     \<lparr>stops = Map.empty, routes = [], route_info = Map.empty, trip_to_route = Map.empty,
      trip_to_shape = Map.empty, trip_stops = [], shapes = Map.empty\<rparr>"

section \<open>Table parsing\<close>

text \<open>\<^verbatim>\<open>_parse_stops\<close>: the right-hand side is evaluated left to right, then stored.\<close>

definition stops_row :: "(string \<Rightarrow> 'f option) \<Rightarrow> row \<Rightarrow> 'f parser \<Rightarrow> exc + 'f parser" where
  "stops_row float_of r self =
     bind_exc (getitem r ''stop_id'') (\<lambda>sid.
     let nm = (case r ''stop_name'' of None \<Rightarrow> PyStr [] | Some c \<Rightarrow> c) in
     bind_exc (getitem r ''stop_lat'') (\<lambda>lat_c.
     bind_exc (py_float float_of lat_c) (\<lambda>lat.
     bind_exc (getitem r ''stop_lon'') (\<lambda>lon_c.
     bind_exc (py_float float_of lon_c) (\<lambda>lng.
       Inr (self\<lparr>stops := (stops self)(sid \<mapsto>
              \<lparr>stop_id = sid, stop_name = nm, stop_lat = lat, stop_lng = lng\<rparr>)\<rparr>))))))"

definition parse_stops :: "(string \<Rightarrow> 'f option) \<Rightarrow> row list \<Rightarrow> 'f parser \<Rightarrow> exc + 'f parser" where
  "parse_stops float_of rows self = for_rows key_or_value_error (stops_row float_of) rows self"

text \<open>
  \<^verbatim>\<open>_parse_routes\<close>. \<^verbatim>\<open>row.get("route_short_name") or row.get("route_long_name", "")\<close>
  is the short name when that is a non-empty string, else whatever the second lookup gives;
  \<^verbatim>\<open>int(row.get("route_type", 3))\<close> is 3 when the column is missing.
\<close>

definition route_name_of :: "row \<Rightarrow> cell" where
  "route_name_of r =
     (let short = (case r ''route_short_name'' of None \<Rightarrow> PyNone | Some c \<Rightarrow> c) in
      if truthy short then short
      else (case r ''route_long_name'' of None \<Rightarrow> PyStr [] | Some c \<Rightarrow> c))"

definition routes_row :: "(string \<Rightarrow> int option) \<Rightarrow> row \<Rightarrow> 'f parser \<Rightarrow> exc + 'f parser" where
  "routes_row int_of r self =
     bind_exc (getitem r ''route_id'') (\<lambda>rid.
     let nm = route_name_of r in
     bind_exc (case r ''route_type'' of None \<Rightarrow> Inr 3 | Some c \<Rightarrow> py_int int_of c) (\<lambda>ty.
       Inr (self\<lparr>route_info := (route_info self)(rid \<mapsto> (nm, ty))\<rparr>)))"

definition parse_routes :: "(string \<Rightarrow> int option) \<Rightarrow> row list \<Rightarrow> 'f parser \<Rightarrow> exc + 'f parser" where
  "parse_routes int_of rows self = for_rows key_or_value_error (routes_row int_of) rows self"

text \<open>\<^verbatim>\<open>_parse_trips\<close>; the shape is recorded when the cell is a non-empty string.\<close>

definition trips_row :: "row \<Rightarrow> 'f parser \<Rightarrow> exc + 'f parser" where
  "trips_row r self =
     bind_exc (getitem r ''trip_id'') (\<lambda>tid.
     bind_exc (getitem r ''route_id'') (\<lambda>rid.
     let self1 = self\<lparr>trip_to_route := (trip_to_route self)(tid \<mapsto> rid)\<rparr> in
     Inr (case r ''shape_id'' of
            None \<Rightarrow> self1
          | Some c \<Rightarrow>
              if truthy c then self1\<lparr>trip_to_shape := (trip_to_shape self1)(tid \<mapsto> c)\<rparr>
              else self1)))"

definition parse_trips :: "row list \<Rightarrow> 'f parser \<Rightarrow> exc + 'f parser" where
  "parse_trips rows self = for_rows key_error trips_row rows self"

text \<open>
  \<^verbatim>\<open>_parse_shapes\<close>: the points are collected per shape id, then each list is sorted with
  \<^verbatim>\<open>sorted(points, key=lambda x: x[0])\<close> and its coordinates are stored. Python's sort is
  stable, as \<open>sort_key\<close> is.
\<close>

type_synonym 'f shape_points = "(cell \<times> (int \<times> 'f \<times> 'f) list) list"

definition shapes_row ::
  "(string \<Rightarrow> int option) \<Rightarrow> (string \<Rightarrow> 'f option) \<Rightarrow> row \<Rightarrow> 'f shape_points \<Rightarrow> exc + 'f shape_points" where
  "shapes_row int_of float_of r shape_points =
     bind_exc (getitem r ''shape_id'') (\<lambda>shape_id.
     bind_exc (getitem r ''shape_pt_sequence'') (\<lambda>seq_c.
     bind_exc (py_int int_of seq_c) (\<lambda>seq.
     bind_exc (getitem r ''shape_pt_lat'') (\<lambda>lat_c.
     bind_exc (py_float float_of lat_c) (\<lambda>lat.
     bind_exc (getitem r ''shape_pt_lon'') (\<lambda>lon_c.
     bind_exc (py_float float_of lon_c) (\<lambda>lng.
       Inr (dict_append shape_id (seq, lat, lng) shape_points))))))))"

definition sorted_coords :: "(int \<times> 'f \<times> 'f) list \<Rightarrow> ('f \<times> 'f) list" where
  "sorted_coords points = map snd (sort_key fst points)"

fun store_shapes :: "'f shape_points \<Rightarrow> (cell \<rightharpoonup> ('f \<times> 'f) list) \<Rightarrow> (cell \<rightharpoonup> ('f \<times> 'f) list)" where
  "store_shapes [] m = m"
| "store_shapes ((shape_id, points) # rest) m =
     store_shapes rest (m(shape_id \<mapsto> sorted_coords points))"

definition parse_shapes ::
  "(string \<Rightarrow> int option) \<Rightarrow> (string \<Rightarrow> 'f option) \<Rightarrow> row list \<Rightarrow> 'f parser \<Rightarrow> exc + 'f parser" where
  "parse_shapes int_of float_of rows self =
     (case for_rows key_or_value_error (shapes_row int_of float_of) rows [] of
        Inl e \<Rightarrow> Inl e
      | Inr shape_points \<Rightarrow> Inr (self\<lparr>shapes := store_shapes shape_points (shapes self)\<rparr>))"

text \<open>
  \<^verbatim>\<open>_parse_stop_times\<close>. \<open>known_trips\<close> is the key set of \<open>trip_to_route\<close>, taken
  before the loop; a row of another trip is left at once.
\<close>

definition stop_times_row ::
  "(string \<Rightarrow> int option) \<Rightarrow> cell set \<Rightarrow> row \<Rightarrow> 'f parser \<Rightarrow> exc + 'f parser" where
  "stop_times_row int_of known_trips r self =
     bind_exc (getitem r ''trip_id'') (\<lambda>tid.
     if tid \<notin> known_trips then Inr self
     else
       bind_exc (getitem r ''stop_id'') (\<lambda>sid.
       bind_exc (getitem r ''stop_sequence'') (\<lambda>seq_c.
       bind_exc (py_int int_of seq_c) (\<lambda>seq.
         Inr (self\<lparr>trip_stops := dict_append tid (seq, sid) (trip_stops self)\<rparr>)))))"

definition parse_stop_times :: "(string \<Rightarrow> int option) \<Rightarrow> row list \<Rightarrow> 'f parser \<Rightarrow> exc + 'f parser" where
  "parse_stop_times int_of rows self =
     for_rows key_or_value_error (stop_times_row int_of (dom (trip_to_route self))) rows self"

text \<open>
  The variant of the claim on the early exit, following the claim's words: every
  well-formed stop-time row is accumulated, whatever its trip, and every other row is
  skipped. A row is well-formed when it has a \<^verbatim>\<open>trip_id\<close>, a \<^verbatim>\<open>stop_id\<close> and a
  \<^verbatim>\<open>stop_sequence\<close> that reads as an integer: the rows that the loop body of the source
  accumulates once they are past its filter. The variant is not code of the repository; it
  is what \<^verbatim>\<open>_parse_stop_times\<close> is compared with.
\<close>

definition well_formed_stop_time ::
  "(string \<Rightarrow> int option) \<Rightarrow> row \<Rightarrow> (cell \<times> int \<times> cell) option" where
  "well_formed_stop_time int_of r =
     (case r ''trip_id'' of
        None \<Rightarrow> None
      | Some tid \<Rightarrow>
          (case r ''stop_id'' of
             None \<Rightarrow> None
           | Some sid \<Rightarrow>
               (case r ''stop_sequence'' of
                  Some (PyStr s) \<Rightarrow>
                    (case int_of s of None \<Rightarrow> None | Some seq \<Rightarrow> Some (tid, seq, sid))
                | _ \<Rightarrow> None)))"

fun accumulate_well_formed :: "(string \<Rightarrow> int option) \<Rightarrow> row list \<Rightarrow> 'f parser \<Rightarrow> 'f parser" where
  "accumulate_well_formed int_of [] self = self"
| "accumulate_well_formed int_of (r # rows) self =
     accumulate_well_formed int_of rows
       (case well_formed_stop_time int_of r of
          None \<Rightarrow> self
        | Some (tid, seq, sid) \<Rightarrow>
            self\<lparr>trip_stops := dict_append tid (seq, sid) (trip_stops self)\<rparr>)"

definition parse_stop_times_unfiltered ::
  "(string \<Rightarrow> int option) \<Rightarrow> row list \<Rightarrow> 'f parser \<Rightarrow> exc + 'f parser" where
  "parse_stop_times_unfiltered int_of rows self = Inr (accumulate_well_formed int_of rows self)"

section \<open>Route reconstruction\<close>

text \<open>
  \<^verbatim>\<open>sorted(stops)\<close>, on the list \<open>pairs\<close> of one trip, sorts the
  \<^verbatim>\<open>(seq, stop_id)\<close> tuples: by sequence number, and under equal sequence numbers by
  stop id. A stop id is a string or \<^verbatim>\<open>None\<close>; Python orders
  strings, but \<^verbatim>\<open>None < 'a'\<close> raises \<^verbatim>\<open>TypeError\<close>. Two tuples with the same sequence
  number, one with \<^verbatim>\<open>None\<close> and one with a string, have to be compared by any sort
  (nothing lies between their two classes), so they make \<^verbatim>\<open>sorted\<close> raise; without such a
  pair no comparison raises, and the result is the list sorted by the tuple order.
\<close>

fun cell_key :: "cell \<Rightarrow> string option" where
  "cell_key PyNone = None"
| "cell_key (PyStr s) = Some s"

definition mixed_tie :: "(int \<times> cell) list \<Rightarrow> bool" where
  "mixed_tie pairs =
     (\<exists>(s, a) \<in> set pairs. \<exists>(t, b) \<in> set pairs. s = t \<and> a = PyNone \<and> b \<noteq> PyNone)"

definition sorted_stop_ids :: "(int \<times> cell) list \<Rightarrow> exc + cell list" where
  "sorted_stop_ids pairs =
     (if mixed_tie pairs then Inl TypeError
      else Inr (map snd (sort_key (\<lambda>(seq, sid). (seq, cell_key sid)) pairs)))"

text \<open>
  \<^verbatim>\<open>max(trip_data, key=...)\<close> keeps the first element and replaces it only by a later
  one with a strictly greater key.
\<close>

fun py_max_by :: "('a \<Rightarrow> nat) \<Rightarrow> 'a \<Rightarrow> 'a list \<Rightarrow> 'a" where
  "py_max_by key best [] = best"
| "py_max_by key best (x # xs) = py_max_by key (if key best < key x then x else best) xs"

type_synonym route_trips = "(cell \<times> (cell list \<times> cell) list) list"

text \<open>The first loop of \<^verbatim>\<open>_build_routes\<close>, over \<^verbatim>\<open>self._trip_stops.items()\<close>.\<close>

fun group_trips :: "'f parser \<Rightarrow> (cell \<times> (int \<times> cell) list) list \<Rightarrow> route_trips \<Rightarrow> exc + route_trips" where
  "group_trips self [] route_trips = Inr route_trips"
| "group_trips self ((trip_id, pairs) # rest) route_trips =
     (case trip_to_route self trip_id of
        None \<Rightarrow> group_trips self rest route_trips
      | Some rid \<Rightarrow>
          if truthy rid then
            (case sorted_stop_ids pairs of
               Inl e \<Rightarrow> Inl e
             | Inr sorted_stops \<Rightarrow>
                 group_trips self rest
                   (dict_append rid
                      (sorted_stops,
                       (case trip_to_shape self trip_id of None \<Rightarrow> PyStr [] | Some c \<Rightarrow> c))
                      route_trips))
          else group_trips self rest route_trips)"

text \<open>The body of the second loop: the route of one group, or none.\<close>

definition best_trip :: "(cell list \<times> cell) list \<Rightarrow> (cell list \<times> cell) option" where
  "best_trip trip_data =
     (case trip_data of
        [] \<Rightarrow> None
      | first # others \<Rightarrow> Some (py_max_by (\<lambda>x. length (fst x)) first others))"

definition make_route :: "'f parser \<Rightarrow> cell \<Rightarrow> (cell list \<times> cell) list \<Rightarrow> 'f Route option" where
  "make_route self rid trip_data =
     (case best_trip trip_data of
        None \<Rightarrow> None
      | Some (trip_stop_ids, shape_id) \<Rightarrow>
          let present = filter (\<lambda>s. s \<in> dom (stops self)) trip_stop_ids in
          if length present < 2 then None
          else
            let coords = (case shapes self shape_id of None \<Rightarrow> [] | Some cs \<Rightarrow> cs);
                info = (case route_info self rid of None \<Rightarrow> (PyStr ''Unknown'', 3) | Some p \<Rightarrow> p)
            in Some \<lparr>route_id = rid, route_name = fst info,
                      route_type = normalize_route_type (snd info),
                      stop_ids = present, shape_coords = coords\<rparr>)"

fun emit_routes :: "'f parser \<Rightarrow> route_trips \<Rightarrow> 'f Route list \<Rightarrow> 'f Route list" where
  "emit_routes self [] rs = rs"
| "emit_routes self ((rid, trip_data) # rest) rs =
     emit_routes self rest
       (case make_route self rid trip_data of None \<Rightarrow> rs | Some r \<Rightarrow> rs @ [r])"

definition build_routes :: "'f parser \<Rightarrow> exc + 'f parser" where
  "build_routes self =
     bind_exc (group_trips self (trip_stops self) []) (\<lambda>route_trips.
       Inr (self\<lparr>routes := emit_routes self route_trips (routes self)\<rparr>))"

section \<open>The archive\<close>

text \<open>
  An archive that opens is seen through \<^verbatim>\<open>zf.namelist()\<close> and \<^verbatim>\<open>zf.open(name)\<close>: a map
  from member names to the rows the reader yields for that member. \<open>None\<close> stands for
  bytes on which \<^verbatim>\<open>zipfile.ZipFile\<close> raises \<^verbatim>\<open>BadZipFile\<close>, the one exception
  \<^verbatim>\<open>_parse_zip\<close> catches. An exception of a table pass or of the reconstruction leaves
  \<^verbatim>\<open>_parse_zip\<close> uncaught: the result is \<open>Inl\<close>. Members are taken as read and
  decoded; a member that cannot be decompressed or decoded is outside this view.
\<close>

type_synonym archive = "string \<rightharpoonup> row list"

definition parse_table ::
  "archive \<Rightarrow> string \<Rightarrow> (row list \<Rightarrow> 'f parser \<Rightarrow> exc + 'f parser) \<Rightarrow> 'f parser \<Rightarrow> exc + 'f parser" where
  "parse_table zf name pass self = (case zf name of None \<Rightarrow> Inr self | Some rows \<Rightarrow> pass rows self)"

definition parse_zip_with ::
  "(row list \<Rightarrow> 'f parser \<Rightarrow> exc + 'f parser) \<Rightarrow> (string \<Rightarrow> int option) \<Rightarrow> (string \<Rightarrow> 'f option)
     \<Rightarrow> archive option \<Rightarrow> 'f parser \<Rightarrow> exc + (bool \<times> 'f parser)" where
  "parse_zip_with stop_times_pass int_of float_of zip_data self =
     (case zip_data of
        None \<Rightarrow> Inr (False, self)
      | Some zf \<Rightarrow>
          bind_exc (parse_table zf ''stops.txt'' (parse_stops float_of) self) (\<lambda>s1.
          bind_exc (parse_table zf ''routes.txt'' (parse_routes int_of) s1) (\<lambda>s2.
          bind_exc (parse_table zf ''trips.txt'' parse_trips s2) (\<lambda>s3.
          bind_exc (parse_table zf ''shapes.txt'' (parse_shapes int_of float_of) s3) (\<lambda>s4.
          bind_exc (parse_table zf ''stop_times.txt'' stop_times_pass s4) (\<lambda>s5.
          bind_exc (build_routes s5) (\<lambda>s6.
            Inr (True, s6))))))))"

text \<open>\<^verbatim>\<open>_parse_zip\<close>, and the same with the variant's stop-times pass.\<close>

definition parse_zip ::
  "(string \<Rightarrow> int option) \<Rightarrow> (string \<Rightarrow> 'f option) \<Rightarrow> archive option \<Rightarrow> 'f parser \<Rightarrow> exc + (bool \<times> 'f parser)" where
  "parse_zip int_of float_of = parse_zip_with (parse_stop_times int_of) int_of float_of"

definition parse_zip_unfiltered ::
  "(string \<Rightarrow> int option) \<Rightarrow> (string \<Rightarrow> 'f option) \<Rightarrow> archive option \<Rightarrow> 'f parser \<Rightarrow> exc + (bool \<times> 'f parser)" where
  "parse_zip_unfiltered int_of float_of =
     parse_zip_with (parse_stop_times_unfiltered int_of) int_of float_of"

section \<open>Loading from a file, with the parsed cache\<close>

text \<open>
  What \<^verbatim>\<open>load_from_file\<close> sees of the file system: the archive's modification time
  (\<open>None\<close> when \<^verbatim>\<open>stat\<close> raises), what \<^verbatim>\<open>open(path, "rb")\<close> gives (\<open>None\<close> when it
  raises \<^verbatim>\<open>IOError\<close>, else the bytes as \<^verbatim>\<open>_parse_zip\<close> takes them), and the
  \<^verbatim>\<open>.parsed\<close> file beside it, if it exists, with its modification time and what reading
  it gives. Reading fails as a whole (\<open>Unreadable\<close>: the file cannot be opened or
  unpickled), or gives a dictionary that may lack either key. Modification times are of
  any linearly ordered type. The trace lists the files opened, in order.
\<close>

datatype 'f pickle = Unreadable | Unpickled "(cell \<rightharpoonup> 'f Stop) option" "'f Route list option"

record ('t, 'f) files =
  zip_mtime :: "'t option"
  zip_bytes :: "archive option option"
  cache_file :: "('t \<times> 'f pickle) option"

datatype io_event = OpenCacheRead | OpenZipRead | OpenCacheWrite


text \<open>The second \<^verbatim>\<open>try\<close> block: parse the archive, then write the cache when that gave \<^verbatim>\<open>True\<close>.\<close>

definition reparse ::
  "(string \<Rightarrow> int option) \<Rightarrow> (string \<Rightarrow> 'f option) \<Rightarrow> ('t, 'f) files \<Rightarrow> 'f parser
     \<Rightarrow> io_event list \<times> (exc + (bool \<times> 'f parser))" where
  "reparse int_of float_of fs self =
     (case zip_bytes fs of
        None \<Rightarrow> ([OpenZipRead], Inr (False, self))
      | Some zip_data \<Rightarrow>
          (case parse_zip int_of float_of zip_data self of
             Inl e \<Rightarrow> ([OpenZipRead], Inl e)
           | Inr (result, self') \<Rightarrow>
               (if result then [OpenZipRead, OpenCacheWrite] else [OpenZipRead],
                Inr (result, self'))))"



text \<open>
  What one row of \<^verbatim>\<open>shapes.txt\<close> adds (read off the loop body on an empty dictionary),
  and the points the rows give for one shape id, in input order.
\<close>

definition shape_point ::
  "(string \<Rightarrow> int option) \<Rightarrow> (string \<Rightarrow> 'f option) \<Rightarrow> row \<Rightarrow> (cell \<times> int \<times> 'f \<times> 'f) option" where
  "shape_point int_of float_of r =
     (case shapes_row int_of float_of r [] of
        Inr [(shape_id, [p])] \<Rightarrow> Some (shape_id, p)
      | _ \<Rightarrow> None)"

definition points_of ::
  "(string \<Rightarrow> int option) \<Rightarrow> (string \<Rightarrow> 'f option) \<Rightarrow> row list \<Rightarrow> cell \<Rightarrow> (int \<times> 'f \<times> 'f) list" where
  "points_of int_of float_of rows shape_id =
     map snd (filter (\<lambda>kp. fst kp = shape_id) (List.map_filter (shape_point int_of float_of) rows))"

text \<open>
  \<^verbatim>\<open>d.get(k, [])\<close> on such a dictionary, and the trip that the second loop of
  \<^verbatim>\<open>_build_routes\<close> picks for a route id: \<^verbatim>\<open>max\<close> over the route's group, none when
  the route has no group.
\<close>

definition dict_get :: "('k \<times> 'v list) list \<Rightarrow> 'k \<Rightarrow> 'v list" where
  "dict_get d k = (case map_of d k of None \<Rightarrow> [] | Some vs \<Rightarrow> vs)"

definition representative :: "route_trips \<Rightarrow> cell \<Rightarrow> (cell list \<times> cell) option" where
  "representative groups rid = best_trip (dict_get groups rid)"

text \<open>The trips of \<open>trip_stops\<close> that \<open>trip_to_route\<close> maps to a route id, in order.\<close>

definition trips_of :: "'f parser \<Rightarrow> cell \<Rightarrow> (cell \<times> (int \<times> cell) list) list" where
  "trips_of self rid = filter (\<lambda>(trip_id, pairs). trip_to_route self trip_id = Some rid) (trip_stops self)"

text \<open>
  Archives in which no data line is shorter than its header (no cell is \<^verbatim>\<open>None\<close>), and
  states whose accumulated stop ids are all strings.
\<close>

definition full_rows :: "archive \<Rightarrow> bool" where
  "full_rows zf = (\<forall>rows \<in> ran zf. \<forall>r \<in> set rows. PyNone \<notin> ran r)"

definition string_ids :: "'f parser \<Rightarrow> bool" where
  "string_ids self =
     (\<forall>(trip_id, pairs) \<in> set (trip_stops self). \<forall>(seq, sid) \<in> set pairs. sid \<noteq> PyNone)"

text \<open>
  A result that is a value with the property \<open>Q\<close>, or one of the two exceptions the
  row handlers catch.
\<close>

definition caught_or :: "('a \<Rightarrow> bool) \<Rightarrow> exc + 'a \<Rightarrow> bool" where
  "caught_or Q m = (case m of Inl e \<Rightarrow> key_or_value_error e | Inr x \<Rightarrow> Q x)"

section \<open>A reader of decimal numerals\<close>

text \<open>
  The theorems below hold for every pair of readers. The examples need one: \<open>decimal\<close>
  reads an optional minus sign and ASCII digits, strings on which it agrees with Python's
  \<^verbatim>\<open>int\<close>, and rejects everything else. The examples take the integers for \<open>'f\<close>
  as well.
\<close>

definition digit_of :: "char \<Rightarrow> int option" where
  "digit_of c =
     map_of [(CHR ''0'', 0), (CHR ''1'', 1), (CHR ''2'', 2), (CHR ''3'', 3), (CHR ''4'', 4),
             (CHR ''5'', 5), (CHR ''6'', 6), (CHR ''7'', 7), (CHR ''8'', 8), (CHR ''9'', 9)] c"

fun digits_value :: "int \<Rightarrow> string \<Rightarrow> int option" where
  "digits_value acc [] = Some acc"
| "digits_value acc (c # cs) =
     (case digit_of c of None \<Rightarrow> None | Some d \<Rightarrow> digits_value (10 * acc + d) cs)"

definition decimal :: "string \<Rightarrow> int option" where
  "decimal s =
     (case s of
        [] \<Rightarrow> None
      | c # cs \<Rightarrow>
          if c = CHR ''-'' then (if cs = [] then None else map_option uminus (digits_value 0 cs))
          else digits_value 0 s)"

section \<open>Example inputs\<close>

text \<open>States and archives for the examples; \<open>'f\<close> is \<open>int\<close>.\<close>

definition stop_at :: "string \<Rightarrow> int Stop" where
  "stop_at s = \<lparr>stop_id = PyStr s, stop_name = PyStr [], stop_lat = 0, stop_lng = 0\<rparr>"

text \<open>
  Two routes with one trip each; the stops \<open>A\<close> and \<open>B\<close> are parsed, \<open>X\<close> is not.
\<close>

definition short_route_state :: "int parser" where
  "short_route_state =
     new_parser\<lparr>
       stops := [PyStr ''A'' \<mapsto> stop_at ''A'', PyStr ''B'' \<mapsto> stop_at ''B''],
       trip_to_route := [PyStr ''T1'' \<mapsto> PyStr ''R1'', PyStr ''T2'' \<mapsto> PyStr ''R2''],
       trip_stops :=
         [(PyStr ''T1'', [(1, PyStr ''A''), (2, PyStr ''B'')]),
          (PyStr ''T2'', [(1, PyStr ''A''), (2, PyStr ''X'')])]\<rparr>"

text \<open>One route with a trip of five stops and a trip of eight, in both orders.\<close>

definition five_stops :: "(int \<times> cell) list" where
  "five_stops =
     [(1, PyStr ''S1''), (2, PyStr ''S2''), (3, PyStr ''S3''), (4, PyStr ''S4''),
      (5, PyStr ''S5'')]"

definition eight_stops :: "(int \<times> cell) list" where
  "eight_stops =
     [(1, PyStr ''S1''), (2, PyStr ''S2''), (3, PyStr ''S3''), (4, PyStr ''S4''),
      (5, PyStr ''S5''), (6, PyStr ''S6''), (7, PyStr ''S7''), (8, PyStr ''S8'')]"

definition five_eight_state :: "int parser" where
  "five_eight_state =
     new_parser\<lparr>
       trip_to_route := [PyStr ''T5'' \<mapsto> PyStr ''R'', PyStr ''T8'' \<mapsto> PyStr ''R''],
       trip_stops := [(PyStr ''T5'', five_stops), (PyStr ''T8'', eight_stops)]\<rparr>"

definition eight_five_state :: "int parser" where
  "eight_five_state =
     new_parser\<lparr>
       trip_to_route := [PyStr ''T5'' \<mapsto> PyStr ''R'', PyStr ''T8'' \<mapsto> PyStr ''R''],
       trip_stops := [(PyStr ''T8'', eight_stops), (PyStr ''T5'', five_stops)]\<rparr>"

text \<open>
  Two trips of two stops each on one route, with a shape each: \<^verbatim>\<open>trips.txt\<close> lists
  \<open>T1\<close> first, \<^verbatim>\<open>stop_times.txt\<close> starts with \<open>T2\<close>. \<open>tie_state\<close> is what the two
  passes leave.
\<close>

definition tie_trips :: "row list" where
  "tie_trips =
     [[''trip_id'' \<mapsto> PyStr ''T1'', ''route_id'' \<mapsto> PyStr ''R'', ''shape_id'' \<mapsto> PyStr ''SH1''],
      [''trip_id'' \<mapsto> PyStr ''T2'', ''route_id'' \<mapsto> PyStr ''R'', ''shape_id'' \<mapsto> PyStr ''SH2'']]"

definition tie_stop_times :: "row list" where
  "tie_stop_times =
     [[''trip_id'' \<mapsto> PyStr ''T2'', ''stop_id'' \<mapsto> PyStr ''C'', ''stop_sequence'' \<mapsto> PyStr ''1''],
      [''trip_id'' \<mapsto> PyStr ''T1'', ''stop_id'' \<mapsto> PyStr ''A'', ''stop_sequence'' \<mapsto> PyStr ''1''],
      [''trip_id'' \<mapsto> PyStr ''T2'', ''stop_id'' \<mapsto> PyStr ''D'', ''stop_sequence'' \<mapsto> PyStr ''2''],
      [''trip_id'' \<mapsto> PyStr ''T1'', ''stop_id'' \<mapsto> PyStr ''B'', ''stop_sequence'' \<mapsto> PyStr ''2'']]"

definition tie_state :: "int parser" where
  "tie_state =
     new_parser\<lparr>
       trip_to_route := [PyStr ''T1'' \<mapsto> PyStr ''R'', PyStr ''T2'' \<mapsto> PyStr ''R''],
       trip_to_shape := [PyStr ''T1'' \<mapsto> PyStr ''SH1'', PyStr ''T2'' \<mapsto> PyStr ''SH2''],
       trip_stops :=
         [(PyStr ''T2'', [(1, PyStr ''C''), (2, PyStr ''D'')]),
          (PyStr ''T1'', [(1, PyStr ''A''), (2, PyStr ''B'')])]\<rparr>"

text \<open>An archive with one trip that calls at \<open>A\<close>, at \<open>B\<close> and at \<open>A\<close> again.\<close>

definition loop_archive :: archive where
  "loop_archive =
     [''stops.txt'' \<mapsto>
        [[''stop_id'' \<mapsto> PyStr ''A'', ''stop_lat'' \<mapsto> PyStr ''0'', ''stop_lon'' \<mapsto> PyStr ''0''],
         [''stop_id'' \<mapsto> PyStr ''B'', ''stop_lat'' \<mapsto> PyStr ''0'', ''stop_lon'' \<mapsto> PyStr ''0'']],
      ''trips.txt'' \<mapsto> [[''trip_id'' \<mapsto> PyStr ''T1'', ''route_id'' \<mapsto> PyStr ''R1'']],
      ''stop_times.txt'' \<mapsto>
        [[''trip_id'' \<mapsto> PyStr ''T1'', ''stop_id'' \<mapsto> PyStr ''A'', ''stop_sequence'' \<mapsto> PyStr ''1''],
         [''trip_id'' \<mapsto> PyStr ''T1'', ''stop_id'' \<mapsto> PyStr ''B'', ''stop_sequence'' \<mapsto> PyStr ''2''],
         [''trip_id'' \<mapsto> PyStr ''T1'', ''stop_id'' \<mapsto> PyStr ''A'', ''stop_sequence'' \<mapsto> PyStr ''3'']]]"

text \<open>
  The state before the reconstruction and the state \<^verbatim>\<open>_parse_zip\<close> returns on
  \<open>loop_archive\<close>.
\<close>

definition loop_state :: "int parser" where
  "loop_state =
     new_parser\<lparr>
       stops := [PyStr ''A'' \<mapsto> stop_at ''A'', PyStr ''B'' \<mapsto> stop_at ''B''],
       trip_to_route := [PyStr ''T1'' \<mapsto> PyStr ''R1''],
       trip_stops := [(PyStr ''T1'', [(1, PyStr ''A''), (2, PyStr ''B''), (3, PyStr ''A'')])]\<rparr>"

definition loop_route :: "int Route" where
  "loop_route =
     \<lparr>route_id = PyStr ''R1'', route_name = PyStr ''Unknown'', route_type = 3,
      stop_ids = [PyStr ''A'', PyStr ''B'', PyStr ''A''], shape_coords = []\<rparr>"




text \<open>
  Stop times of a trip \<open>T9\<close> that \<^verbatim>\<open>trips.txt\<close> does not have, around those of \<open>T1\<close>;
  and a \<^verbatim>\<open>stop_times.txt\<close> whose only data line, \<^verbatim>\<open>X,A\<close>, is one field short.
\<close>

definition unknown_trip_archive :: archive where
  "unknown_trip_archive =
     [''stops.txt'' \<mapsto>
        [[''stop_id'' \<mapsto> PyStr ''A'', ''stop_lat'' \<mapsto> PyStr ''0'', ''stop_lon'' \<mapsto> PyStr ''0''],
         [''stop_id'' \<mapsto> PyStr ''B'', ''stop_lat'' \<mapsto> PyStr ''0'', ''stop_lon'' \<mapsto> PyStr ''0'']],
      ''trips.txt'' \<mapsto> [[''trip_id'' \<mapsto> PyStr ''T1'', ''route_id'' \<mapsto> PyStr ''R1'']],
      ''stop_times.txt'' \<mapsto>
        [[''trip_id'' \<mapsto> PyStr ''T9'', ''stop_id'' \<mapsto> PyStr ''A'', ''stop_sequence'' \<mapsto> PyStr ''1''],
         [''trip_id'' \<mapsto> PyStr ''T1'', ''stop_id'' \<mapsto> PyStr ''A'', ''stop_sequence'' \<mapsto> PyStr ''1''],
         [''trip_id'' \<mapsto> PyStr ''T1'', ''stop_id'' \<mapsto> PyStr ''B'', ''stop_sequence'' \<mapsto> PyStr ''2''],
         [''trip_id'' \<mapsto> PyStr ''T9'', ''stop_id'' \<mapsto> PyStr ''B'', ''stop_sequence'' \<mapsto> PyStr ''2'']]]"

definition unknown_trip_result :: "int parser" where
  "unknown_trip_result =
     new_parser\<lparr>
       stops := [PyStr ''A'' \<mapsto> stop_at ''A'', PyStr ''B'' \<mapsto> stop_at ''B''],
       routes :=
         [\<lparr>route_id = PyStr ''R1'', route_name = PyStr ''Unknown'', route_type = 3,
           stop_ids = [PyStr ''A'', PyStr ''B''], shape_coords = []\<rparr>],
       trip_to_route := [PyStr ''T1'' \<mapsto> PyStr ''R1''],
       trip_stops := [(PyStr ''T1'', [(1, PyStr ''A''), (2, PyStr ''B'')])]\<rparr>"

definition short_row_archive :: archive where
  "short_row_archive =
     [''stop_times.txt'' \<mapsto>
        [[''trip_id'' \<mapsto> PyStr ''X'', ''stop_id'' \<mapsto> PyStr ''A'', ''stop_sequence'' \<mapsto> PyNone]]]"

section \<open>Properties of the normaliser\<close>

lemma normalize_route_type_listed:
  "map (\<lambda>c. (c, normalize_route_type c)) (map fst type_mapping) = type_mapping"
  by (simp add: normalize_route_type_def type_mapping_def)

lemma normalize_route_type_basic:
  "0 \<le> x \<Longrightarrow> x \<le> 7 \<Longrightarrow> normalize_route_type x = x"
  by (auto simp: normalize_route_type_def type_mapping_def)

lemma normalize_route_type_range:
  "0 \<le> x \<Longrightarrow> 0 \<le> normalize_route_type x \<and> normalize_route_type x \<le> 7"
  by (auto simp: normalize_route_type_def type_mapping_def)

theorem normalize_route_type_range_witness:
  "(0 :: int) \<le> 1000 \<and> normalize_route_type 1000 = 4
   \<and> 0 \<le> normalize_route_type 1000 \<and> normalize_route_type 1000 \<le> 7"
  using normalize_route_type_range [of 1000]
  by (simp add: normalize_route_type_def type_mapping_def)

lemma normalize_route_type_negative:
  "x < 0 \<Longrightarrow> normalize_route_type x = x"
  by (auto simp: normalize_route_type_def type_mapping_def)

lemma normalize_route_type_idem:
  "normalize_route_type (normalize_route_type x) = normalize_route_type x"
  by (auto simp: normalize_route_type_def type_mapping_def)

text \<open>
  Claim C1. The claim says that the normaliser returns a value in \<open>{0..7}\<close> for every
  integer and sends every unrecognised code to 3. The guard of the source is only
  \<^verbatim>\<open>route_type <= 7\<close>, so a negative code, which is no basic code and is not listed,
  is returned as it is: at \<open>- 1\<close> the result is \<open>- 1\<close>, outside \<open>{0..7}\<close> and not 3.
\<close>

theorem normalize_route_type_minus_one:
  "normalize_route_type (- 1) = - 1 \<and> normalize_route_type (- 1) \<notin> {0..7}
     \<and> normalize_route_type (- 1) \<noteq> 3"
  by (simp add: normalize_route_type_def type_mapping_def)

section \<open>The routes table\<close>

lemma route_name_of_cases:
  "route_name_of r =
     (case r ''route_short_name'' of
        Some (PyStr (c # cs)) \<Rightarrow> PyStr (c # cs)
      | _ \<Rightarrow> (case r ''route_long_name'' of Some v \<Rightarrow> v | None \<Rightarrow> PyStr []))"
  by (simp add: route_name_of_def split: option.splits cell.splits list.splits)

text \<open>
  Claim C3, as amended. One turn of the routes loop, on a row \<open>r\<close> whose
  \<^verbatim>\<open>route_type\<close> is missing or a string. A row without \<^verbatim>\<open>route_id\<close> is skipped. A row
  with \<^verbatim>\<open>route_id\<close> is recorded under that id with type 3 when the \<^verbatim>\<open>route_type\<close> column
  is missing, and with the integer read when the cell is a numeral; when the cell is a
  string that is no numeral the row is skipped as well (the \<^verbatim>\<open>ValueError\<close> is caught by
  the same handler), it is not recorded with type 3. The name recorded is
  \<^verbatim>\<open>route_short_name\<close> when that is a non-empty string, else the \<^verbatim>\<open>route_long_name\<close>
  cell, else (no such column) the empty string.
\<close>

theorem parse_routes_row:
  "(r ''route_id'' = None \<longrightarrow> parse_routes int_of (r # rows) self = parse_routes int_of rows self)
   \<and> (\<forall>rid. r ''route_id'' = Some rid \<longrightarrow>
         (r ''route_type'' = None \<longrightarrow>
            parse_routes int_of (r # rows) self =
              parse_routes int_of rows
                (self\<lparr>route_info := (route_info self)(rid \<mapsto> (route_name_of r, 3))\<rparr>))
       \<and> (\<forall>s. r ''route_type'' = Some (PyStr s) \<longrightarrow>
            parse_routes int_of (r # rows) self =
              (case int_of s of
                 Some n \<Rightarrow>
                   parse_routes int_of rows
                     (self\<lparr>route_info := (route_info self)(rid \<mapsto> (route_name_of r, n))\<rparr>)
               | None \<Rightarrow> parse_routes int_of rows self)))
   \<and> route_name_of r =
       (case r ''route_short_name'' of
          Some (PyStr (c # cs)) \<Rightarrow> PyStr (c # cs)
        | _ \<Rightarrow> (case r ''route_long_name'' of Some v \<Rightarrow> v | None \<Rightarrow> PyStr []))"
proof -
  have skip: "r ''route_id'' = None \<Longrightarrow>
      parse_routes int_of (r # rows) self = parse_routes int_of rows self"
    by (simp add: parse_routes_def routes_row_def bind_exc_def getitem_def key_or_value_error_def)
  have absent: "r ''route_id'' = Some rid \<Longrightarrow> r ''route_type'' = None \<Longrightarrow>
      parse_routes int_of (r # rows) self =
        parse_routes int_of rows
          (self\<lparr>route_info := (route_info self)(rid \<mapsto> (route_name_of r, 3))\<rparr>)" for rid
    by (simp add: parse_routes_def routes_row_def bind_exc_def getitem_def)
  have given: "r ''route_id'' = Some rid \<Longrightarrow> r ''route_type'' = Some (PyStr s) \<Longrightarrow>
      parse_routes int_of (r # rows) self =
        (case int_of s of
           Some n \<Rightarrow>
             parse_routes int_of rows
               (self\<lparr>route_info := (route_info self)(rid \<mapsto> (route_name_of r, n))\<rparr>)
         | None \<Rightarrow> parse_routes int_of rows self)" for rid s
    by (simp add: parse_routes_def routes_row_def bind_exc_def getitem_def py_int_def
          key_or_value_error_def split: option.splits)
  from skip absent given route_name_of_cases show ?thesis by blast
qed

text \<open>
  The theorem at three rows: a numeral type and an empty short name; no type column; no
  \<^verbatim>\<open>route_id\<close>.
\<close>

theorem parse_routes_row_witness:
  "parse_routes decimal
     [[''route_id'' \<mapsto> PyStr ''R1'', ''route_short_name'' \<mapsto> PyStr [],
       ''route_long_name'' \<mapsto> PyStr ''Ring'', ''route_type'' \<mapsto> PyStr ''401'']]
     (new_parser :: int parser)
   = Inr (new_parser\<lparr>route_info := [PyStr ''R1'' \<mapsto> (PyStr ''Ring'', 401)]\<rparr>)
   \<and> parse_routes decimal
     [[''route_id'' \<mapsto> PyStr ''R2'', ''route_short_name'' \<mapsto> PyStr ''12'']]
     (new_parser :: int parser)
   = Inr (new_parser\<lparr>route_info := [PyStr ''R2'' \<mapsto> (PyStr ''12'', 3)]\<rparr>)
   \<and> parse_routes decimal [[''route_short_name'' \<mapsto> PyStr ''12'']] (new_parser :: int parser)
   = Inr new_parser"
  using
    parse_routes_row [of "[''route_id'' \<mapsto> PyStr ''R1'', ''route_short_name'' \<mapsto> PyStr [],
       ''route_long_name'' \<mapsto> PyStr ''Ring'', ''route_type'' \<mapsto> PyStr ''401'']" decimal "[]"
       "new_parser :: int parser"]
    parse_routes_row [of "[''route_id'' \<mapsto> PyStr ''R2'', ''route_short_name'' \<mapsto> PyStr ''12'']"
       decimal "[]" "new_parser :: int parser"]
    parse_routes_row [of "[''route_short_name'' \<mapsto> PyStr ''12'']"
       decimal "[]" "new_parser :: int parser"]
  by (simp add: parse_routes_def decimal_def digit_of_def new_parser_def)

text \<open>
  The claim as stated fails: the row \<^verbatim>\<open>route_id=R1, route_type=x\<close> has a
  \<^verbatim>\<open>route_id\<close>, and it is not recorded at all.
\<close>

theorem parse_routes_non_numeric_skipped:
  "[''route_id'' \<mapsto> PyStr ''R1'', ''route_type'' \<mapsto> PyStr ''x''] ''route_id'' = Some (PyStr ''R1'')
   \<and> decimal ''x'' = None
   \<and> parse_routes decimal [[''route_id'' \<mapsto> PyStr ''R1'', ''route_type'' \<mapsto> PyStr ''x'']]
        (new_parser :: int parser) = Inr new_parser
   \<and> route_info (new_parser :: int parser) (PyStr ''R1'') = None"
  by (simp add: parse_routes_def routes_row_def bind_exc_def getitem_def py_int_def decimal_def
        digit_of_def key_or_value_error_def new_parser_def)

section \<open>Failure of the whole parse\<close>

text \<open>
  Claim C8. The claim says that no row-level error makes the parse of an archive fail. A
  data line of \<^verbatim>\<open>stops.txt\<close> with fewer fields than the header has \<^verbatim>\<open>None\<close> for
  \<^verbatim>\<open>stop_lat\<close>; \<^verbatim>\<open>float(None)\<close> raises \<^verbatim>\<open>TypeError\<close>, which the handler
  \<^verbatim>\<open>except (KeyError, ValueError)\<close> does not catch and \<^verbatim>\<open>_parse_zip\<close> does not
  either: the archive opens, and the parse returns neither \<^verbatim>\<open>True\<close> nor \<^verbatim>\<open>False\<close>.
\<close>

theorem parse_zip_short_row:
  "parse_zip decimal decimal
     (Some [''stops.txt'' \<mapsto>
        [[''stop_id'' \<mapsto> PyStr ''S1'', ''stop_name'' \<mapsto> PyStr ''Main'',
          ''stop_lat'' \<mapsto> PyNone, ''stop_lon'' \<mapsto> PyNone]]])
     (new_parser :: int parser) = Inl TypeError"
  by (simp add: parse_zip_def parse_zip_with_def parse_table_def parse_stops_def stops_row_def
        bind_exc_def getitem_def py_float_def key_or_value_error_def)

section \<open>The parsed cache\<close>

lemma reparse_trace:
  "fst (reparse int_of float_of fs self) = [OpenZipRead]
   \<or> fst (reparse int_of float_of fs self) = [OpenZipRead, OpenCacheWrite]"
  by (simp add: reparse_def split: option.splits sum.splits prod.splits)


lemma reparse_opens_archive: "OpenZipRead \<in> set (fst (reparse int_of float_of fs self))"
  using reparse_trace [of int_of float_of fs self] by auto








section \<open>Dictionaries of lists\<close>

lemma map_of_dict_append:
  "map_of (dict_append k v d) =
     (map_of d)(k \<mapsto> (case map_of d k of None \<Rightarrow> [v] | Some vs \<Rightarrow> vs @ [v]))"
  by (induction d) (auto simp: fun_eq_iff)

lemma keys_dict_append: "fst ` set (dict_append k v d) = insert k (fst ` set d)"
proof (induction d)
  case Nil
  then show ?case by simp
next
  case (Cons a d)
  obtain k' vs where a: "a = (k', vs)" by (cases a)
  show ?case
  proof (cases "k = k'")
    case True
    with a show ?thesis by simp
  next
    case False
    with a Cons show ?thesis by (simp add: insert_commute)
  qed
qed

lemma distinct_dict_append:
  "distinct (map fst d) \<Longrightarrow> distinct (map fst (dict_append k v d))"
  by (induction d) (auto simp: keys_dict_append)

section \<open>The shapes table\<close>

lemma shapes_row_Inr:
  "shapes_row int_of float_of r sp = Inr sp' \<longleftrightarrow>
     (\<exists>k p. shape_point int_of float_of r = Some (k, p) \<and> sp' = dict_append k p sp)"
  by (auto simp: shapes_row_def shape_point_def bind_exc_def split: sum.splits)

lemma shapes_row_Inl:
  "shapes_row int_of float_of r sp = Inl e \<Longrightarrow> shape_point int_of float_of r = None"
  by (auto simp: shapes_row_def shape_point_def bind_exc_def split: sum.splits)

lemma points_of_Nil [simp]: "points_of int_of float_of [] k = []"
  by (simp add: points_of_def)

lemma points_of_Cons:
  "points_of int_of float_of (r # rows) k =
     (case shape_point int_of float_of r of
        None \<Rightarrow> points_of int_of float_of rows k
      | Some (k', p) \<Rightarrow>
          if k' = k then p # points_of int_of float_of rows k
          else points_of int_of float_of rows k)"
  by (simp add: points_of_def split: option.splits)

lemma shapes_accumulated:
  "for_rows caught (shapes_row int_of float_of) rows sp = Inr sp' \<Longrightarrow>
     map_of sp' k =
       (if points_of int_of float_of rows k = [] then map_of sp k
        else Some ((case map_of sp k of None \<Rightarrow> [] | Some vs \<Rightarrow> vs) @ points_of int_of float_of rows k))"
proof (induction rows arbitrary: sp)
  case Nil
  then show ?case by simp
next
  case (Cons r rows)
  show ?case
  proof (cases "shapes_row int_of float_of r sp")
    case (Inl e)
    with Cons.prems have "for_rows caught (shapes_row int_of float_of) rows sp = Inr sp'"
      by (simp split: if_splits)
    from Cons.IH [OF this] shapes_row_Inl [OF Inl] show ?thesis
      by (simp add: points_of_Cons)
  next
    case (Inr sp1)
    then obtain k' p where kp: "shape_point int_of float_of r = Some (k', p)"
      and sp1: "sp1 = dict_append k' p sp"
      by (auto simp: shapes_row_Inr)
    from Cons.prems Inr have "for_rows caught (shapes_row int_of float_of) rows sp1 = Inr sp'"
      by simp
    from Cons.IH [OF this] show ?thesis
      by (auto simp: points_of_Cons kp sp1 map_of_dict_append split: option.splits)
  qed
qed

lemma shapes_keys_distinct:
  "for_rows caught (shapes_row int_of float_of) rows sp = Inr sp' \<Longrightarrow>
     distinct (map fst sp) \<Longrightarrow> distinct (map fst sp')"
proof (induction rows arbitrary: sp)
  case Nil
  then show ?case by simp
next
  case (Cons r rows)
  then show ?case
    by (auto simp: shapes_row_Inr distinct_dict_append split: sum.splits if_splits)
qed

lemma store_shapes_lookup:
  "distinct (map fst sp) \<Longrightarrow>
     store_shapes sp m k = (case map_of sp k of None \<Rightarrow> m k | Some pts \<Rightarrow> Some (sorted_coords pts))"
proof (induction sp arbitrary: m)
  case Nil
  then show ?case by simp
next
  case (Cons a sp)
  obtain k' pts where a: "a = (k', pts)" by (cases a)
  from Cons.prems a have "map_of sp k' = None"
    by (auto simp: map_of_eq_None_iff)
  with Cons a show ?case
    by (auto split: option.splits)
qed

text \<open>
  Claim C7. When the shapes pass returns, the coordinate list stored for a shape id
  that has points is the list of the points of its rows, in the order of a list \<open>ps\<close>
  that is sorted by sequence number and keeps, for every sequence number, the points of
  that number in input order: the stable sort of the accumulated points. A shape id
  without points keeps what was stored before.
\<close>

theorem parse_shapes_sorted:
  assumes "parse_shapes int_of float_of rows self = Inr self'"
  shows "(points_of int_of float_of rows k = [] \<longrightarrow> shapes self' k = shapes self k)
    \<and> (points_of int_of float_of rows k \<noteq> [] \<longrightarrow>
         (\<exists>ps. shapes self' k = Some (map snd ps)
            \<and> sorted (map fst ps)
            \<and> (\<forall>q. filter (\<lambda>p. fst p = q) ps
                   = filter (\<lambda>p. fst p = q) (points_of int_of float_of rows k))))"
proof -
  from assms obtain sp where
    sp: "for_rows key_or_value_error (shapes_row int_of float_of) rows [] = Inr sp"
    and self': "self' = self\<lparr>shapes := store_shapes sp (shapes self)\<rparr>"
    by (auto simp: parse_shapes_def split: sum.splits)
  have d: "distinct (map fst sp)"
    using shapes_keys_distinct [OF sp] by simp
  have look: "map_of sp k =
      (if points_of int_of float_of rows k = [] then None
       else Some (points_of int_of float_of rows k))"
    using shapes_accumulated [OF sp, of k] by simp
  show ?thesis
  proof (cases "points_of int_of float_of rows k = []")
    case True
    with look d self' show ?thesis
      by (simp add: store_shapes_lookup)
  next
    case False
    let ?ps = "sort_key fst (points_of int_of float_of rows k)"
    from False look d self' have "shapes self' k = Some (map snd ?ps)"
      by (simp add: store_shapes_lookup sorted_coords_def)
    moreover have "sorted (map fst ?ps)"
      by (rule sorted_sort_key)
    moreover have "filter (\<lambda>p. fst p = q) ?ps
        = filter (\<lambda>p. fst p = q) (points_of int_of float_of rows k)" for q
      by (rule sort_key_stable)
    ultimately show ?thesis using False by blast
  qed
qed

text \<open>
  The rows of the claim's example, sequences 3, 1, 2 with coordinates (10,10), (0,0),
  (5,5), and a fourth row that repeats sequence 1 with (7,7): it stays behind (0,0).
\<close>

theorem parse_shapes_sorted_witness:
  "parse_shapes decimal decimal
     [[''shape_id'' \<mapsto> PyStr ''A'', ''shape_pt_sequence'' \<mapsto> PyStr ''3'',
       ''shape_pt_lat'' \<mapsto> PyStr ''10'', ''shape_pt_lon'' \<mapsto> PyStr ''10''],
      [''shape_id'' \<mapsto> PyStr ''A'', ''shape_pt_sequence'' \<mapsto> PyStr ''1'',
       ''shape_pt_lat'' \<mapsto> PyStr ''0'', ''shape_pt_lon'' \<mapsto> PyStr ''0''],
      [''shape_id'' \<mapsto> PyStr ''A'', ''shape_pt_sequence'' \<mapsto> PyStr ''2'',
       ''shape_pt_lat'' \<mapsto> PyStr ''5'', ''shape_pt_lon'' \<mapsto> PyStr ''5'']]
     (new_parser :: int parser)
   = Inr (new_parser\<lparr>shapes := [PyStr ''A'' \<mapsto> [(0, 0), (5, 5), (10, 10)]]\<rparr>)
   \<and> parse_shapes decimal decimal
     [[''shape_id'' \<mapsto> PyStr ''A'', ''shape_pt_sequence'' \<mapsto> PyStr ''3'',
       ''shape_pt_lat'' \<mapsto> PyStr ''10'', ''shape_pt_lon'' \<mapsto> PyStr ''10''],
      [''shape_id'' \<mapsto> PyStr ''A'', ''shape_pt_sequence'' \<mapsto> PyStr ''1'',
       ''shape_pt_lat'' \<mapsto> PyStr ''0'', ''shape_pt_lon'' \<mapsto> PyStr ''0''],
      [''shape_id'' \<mapsto> PyStr ''A'', ''shape_pt_sequence'' \<mapsto> PyStr ''2'',
       ''shape_pt_lat'' \<mapsto> PyStr ''5'', ''shape_pt_lon'' \<mapsto> PyStr ''5''],
      [''shape_id'' \<mapsto> PyStr ''A'', ''shape_pt_sequence'' \<mapsto> PyStr ''1'',
       ''shape_pt_lat'' \<mapsto> PyStr ''7'', ''shape_pt_lon'' \<mapsto> PyStr ''7'']]
     (new_parser :: int parser)
   = Inr (new_parser\<lparr>shapes := [PyStr ''A'' \<mapsto> [(0, 0), (7, 7), (5, 5), (10, 10)]]\<rparr>)"
proof -
  let ?r3 = "[''shape_id'' \<mapsto> PyStr ''A'', ''shape_pt_sequence'' \<mapsto> PyStr ''3'',
       ''shape_pt_lat'' \<mapsto> PyStr ''10'', ''shape_pt_lon'' \<mapsto> PyStr ''10'']"
  let ?r1 = "[''shape_id'' \<mapsto> PyStr ''A'', ''shape_pt_sequence'' \<mapsto> PyStr ''1'',
       ''shape_pt_lat'' \<mapsto> PyStr ''0'', ''shape_pt_lon'' \<mapsto> PyStr ''0'']"
  let ?r2 = "[''shape_id'' \<mapsto> PyStr ''A'', ''shape_pt_sequence'' \<mapsto> PyStr ''2'',
       ''shape_pt_lat'' \<mapsto> PyStr ''5'', ''shape_pt_lon'' \<mapsto> PyStr ''5'']"
  let ?r1' = "[''shape_id'' \<mapsto> PyStr ''A'', ''shape_pt_sequence'' \<mapsto> PyStr ''1'',
       ''shape_pt_lat'' \<mapsto> PyStr ''7'', ''shape_pt_lon'' \<mapsto> PyStr ''7'']"
  have a: "parse_shapes decimal decimal [?r3, ?r1, ?r2] (new_parser :: int parser)
      = Inr (new_parser\<lparr>shapes := [PyStr ''A'' \<mapsto> [(0, 0), (5, 5), (10, 10)]]\<rparr>)"
    by (simp add: parse_shapes_def shapes_row_def bind_exc_def getitem_def py_int_def
          py_float_def decimal_def digit_of_def sorted_coords_def new_parser_def)
  have b: "parse_shapes decimal decimal [?r3, ?r1, ?r2, ?r1'] (new_parser :: int parser)
      = Inr (new_parser\<lparr>shapes := [PyStr ''A'' \<mapsto> [(0, 0), (7, 7), (5, 5), (10, 10)]]\<rparr>)"
    by (simp add: parse_shapes_def shapes_row_def bind_exc_def getitem_def py_int_def
          py_float_def decimal_def digit_of_def sorted_coords_def new_parser_def)
  from a b parse_shapes_sorted [OF a, of "PyStr ''A''"] parse_shapes_sorted [OF b, of "PyStr ''A''"]
  show ?thesis by simp
qed

section \<open>The ordered stops of a trip\<close>

lemma pair_key_le:
  "(\<lambda>(seq, sid). (seq, cell_key sid)) p \<le> (\<lambda>(seq, sid). (seq :: int, cell_key sid)) q \<longleftrightarrow>
     fst p < fst q \<or> (fst p = fst q \<and> cell_key (snd p) \<le> cell_key (snd q))"
  by (cases p; cases q) auto

lemma cell_key_le:
  "cell_key a \<le> cell_key b \<longleftrightarrow>
     a = PyNone \<or> (\<exists>s t. a = PyStr s \<and> b = PyStr t \<and> s \<le> t)"
  by (cases a; cases b) auto

lemma not_mixed_tie:
  "\<not> mixed_tie pairs \<Longrightarrow> (s, a) \<in> set pairs \<Longrightarrow> (s, b) \<in> set pairs \<Longrightarrow>
     (a = PyNone \<longleftrightarrow> b = PyNone)"
  unfolding mixed_tie_def by blast

text \<open>
  Claim C10. When \<^verbatim>\<open>sorted(stops)\<close> returns, the stop ids it gives are those of the
  pairs in an order \<open>ps\<close> that is a rearrangement of the trip's pairs, ascending in the
  sequence number, and in which of two entries with the same sequence number the earlier
  one has the same stop id as the later one or a string that is strictly smaller in the
  lexicographic order: ties are ordered by stop id, whatever the order of the rows.
\<close>

theorem sorted_stop_ids_ties:
  assumes "sorted_stop_ids pairs = Inr ids"
  shows "\<exists>ps. ids = map snd ps \<and> mset ps = mset pairs \<and> sorted (map fst ps)
    \<and> (\<forall>i j. i < j \<and> j < length ps \<and> fst (ps ! i) = fst (ps ! j) \<longrightarrow>
          snd (ps ! i) = snd (ps ! j)
          \<or> (\<exists>s t. snd (ps ! i) = PyStr s \<and> snd (ps ! j) = PyStr t \<and> s < t))"
proof -
  let ?key = "\<lambda>(seq, sid). (seq :: int, cell_key sid)"
  let ?ps = "sort_key ?key pairs"
  from assms have nm: "\<not> mixed_tie pairs" and ids: "ids = map snd ?ps"
    by (auto simp: sorted_stop_ids_def split: if_splits)
  have srt: "sorted (map ?key ?ps)"
    by (rule sorted_sort_key)
  have mono: "?key (?ps ! i) \<le> ?key (?ps ! j)" if "i < j" "j < length ?ps" for i j
    using srt that by (simp add: sorted_iff_nth_mono)
  have fst_sorted: "sorted (map fst ?ps)"
    unfolding sorted_iff_nth_mono
  proof (intro allI impI)
    fix i j
    assume "i \<le> j" "j < length (map fst ?ps)"
    then show "map fst ?ps ! i \<le> map fst ?ps ! j"
      using mono [of i j] by (cases "i = j") (auto simp: pair_key_le)
  qed
  have ties: "snd (?ps ! i) = snd (?ps ! j)
      \<or> (\<exists>s t. snd (?ps ! i) = PyStr s \<and> snd (?ps ! j) = PyStr t \<and> s < t)"
    if "i < j" "j < length ?ps" "fst (?ps ! i) = fst (?ps ! j)" for i j
  proof -
    from that mono [of i j] have le: "cell_key (snd (?ps ! i)) \<le> cell_key (snd (?ps ! j))"
      by (simp add: pair_key_le)
    from that have "i < length ?ps" "j < length ?ps"
      by simp_all
    then have "?ps ! i \<in> set ?ps" "?ps ! j \<in> set ?ps"
      by (simp_all only: nth_mem)
    then have "(fst (?ps ! i), snd (?ps ! i)) \<in> set pairs"
      "(fst (?ps ! j), snd (?ps ! j)) \<in> set pairs"
      by simp_all
    then have "(fst (?ps ! j), snd (?ps ! i)) \<in> set pairs"
      "(fst (?ps ! j), snd (?ps ! j)) \<in> set pairs"
      using that(3) by simp_all
    from not_mixed_tie [OF nm this]
    have "snd (?ps ! i) = PyNone \<longleftrightarrow> snd (?ps ! j) = PyNone" .
    with le show ?thesis
      by (cases "snd (?ps ! i)"; cases "snd (?ps ! j)") (auto simp: order_le_less)
  qed
  from ids fst_sorted ties show ?thesis
    by (intro exI [of _ ?ps]) auto
qed

text \<open>
  Two rows of one trip with the same sequence number, \<open>B\<close> before \<open>A\<close>: the list has
  \<open>A\<close> first.
\<close>

theorem sorted_stop_ids_ties_witness:
  "sorted_stop_ids [(2, PyStr ''C''), (1, PyStr ''B''), (1, PyStr ''A'')]
     = Inr [PyStr ''A'', PyStr ''B'', PyStr ''C'']
   \<and> (\<exists>ps. [PyStr ''A'', PyStr ''B'', PyStr ''C''] = map snd ps
         \<and> mset ps = mset [(2 :: int, PyStr ''C''), (1, PyStr ''B''), (1, PyStr ''A'')]
         \<and> sorted (map fst ps))"
proof -
  have a: "sorted_stop_ids [(2, PyStr ''C''), (1, PyStr ''B''), (1, PyStr ''A'')]
      = Inr [PyStr ''A'', PyStr ''B'', PyStr ''C'']"
    by (simp add: sorted_stop_ids_def mixed_tie_def)
  from sorted_stop_ids_ties [OF a] obtain ps where
    "[PyStr ''A'', PyStr ''B'', PyStr ''C''] = map snd ps"
    "mset ps = mset [(2 :: int, PyStr ''C''), (1, PyStr ''B''), (1, PyStr ''A'')]"
    "sorted (map fst ps)"
    by (elim exE conjE)
  with a show ?thesis by - (intro conjI exI; assumption)
qed

section \<open>Reconstruction: groups and representatives\<close>

lemma dict_get_Nil [simp]: "dict_get [] k = []"
  by (simp add: dict_get_def)

lemma dict_get_append:
  "dict_get (dict_append k v d) k' = (if k' = k then dict_get d k @ [v] else dict_get d k')"
  by (simp add: dict_get_def map_of_dict_append split: option.splits)

lemma dict_get_member: "distinct (map fst d) \<Longrightarrow> (k, vs) \<in> set d \<Longrightarrow> dict_get d k = vs"
  by (simp add: dict_get_def)

lemma py_max_by_first_max:
  "\<exists>pre post. b # xs = pre @ py_max_by key b xs # post
     \<and> (\<forall>a \<in> set pre. key a < key (py_max_by key b xs))
     \<and> (\<forall>a \<in> set post. key a \<le> key (py_max_by key b xs))"
proof (induction xs arbitrary: b)
  case Nil
  show ?case by (intro exI [of _ "[]"]) simp
next
  case (Cons y ys)
  define b' where "b' = (if key b < key y then y else b)"
  define m where "m = py_max_by key b' ys"
  from Cons [of b'] obtain pre post where
    split: "b' # ys = pre @ m # post"
    and before: "\<forall>a \<in> set pre. key a < key m"
    and after: "\<forall>a \<in> set post. key a \<le> key m"
    unfolding m_def by blast
  have m: "py_max_by key b (y # ys) = m"
    by (simp add: m_def b'_def)
  have "b' \<in> set (pre @ m # post)"
    using split by (metis list.set_intros(1))
  with before after have b'_le: "key b' \<le> key m"
    by (auto simp: less_imp_le)
  have "\<exists>pre post. b # y # ys = pre @ m # post
     \<and> (\<forall>a \<in> set pre. key a < key m) \<and> (\<forall>a \<in> set post. key a \<le> key m)"
  proof (cases "key b < key y")
    case True
    then have "b' = y" by (simp add: b'_def)
    with split have "b # y # ys = (b # pre) @ m # post" by simp
    moreover from True b'_le \<open>b' = y\<close> have "key b < key m" by simp
    ultimately show ?thesis
      using before after by (intro exI [of _ "b # pre"] exI [of _ post]) simp
  next
    case False
    then have b': "b' = b" by (simp add: b'_def)
    show ?thesis
    proof (cases pre)
      case Nil
      with split b' have "m = b" "post = ys" by auto
      with False after show ?thesis
        by (intro exI [of _ "[]"] exI [of _ "y # ys"]) auto
    next
      case (Cons p pre')
      with split b' have p: "p = b" and ys: "ys = pre' @ m # post" by simp_all
      from before Cons p have "key b < key m" by simp
      with False have "key y < key m" by simp
      with ys before Cons p after show ?thesis
        by (intro exI [of _ "b # y # pre'"] exI [of _ post]) simp
    qed
  qed
  then show ?case unfolding m .
qed

lemma best_trip_first_max:
  assumes "best_trip td = Some m"
  shows "\<exists>pre post. td = pre @ m # post
     \<and> (\<forall>a \<in> set pre. length (fst a) < length (fst m))
     \<and> (\<forall>a \<in> set post. length (fst a) \<le> length (fst m))"
proof (cases td)
  case Nil
  with assms show ?thesis by (simp add: best_trip_def)
next
  case (Cons b xs)
  with assms have "m = py_max_by (\<lambda>x. length (fst x)) b xs"
    by (simp add: best_trip_def)
  with py_max_by_first_max [of b xs "\<lambda>x. length (fst x)"] Cons show ?thesis
    by simp
qed

lemma best_trip_Some: "td \<noteq> [] \<Longrightarrow> \<exists>m. best_trip td = Some m"
  by (cases td) (simp_all add: best_trip_def)

lemma best_trip_member: "best_trip td = Some m \<Longrightarrow> m \<in> set td"
  using best_trip_first_max [of td m] by auto

lemma sorted_stop_ids_mset:
  "sorted_stop_ids pairs = Inr ids \<Longrightarrow> mset ids = mset (map snd pairs)"
  by (auto simp: sorted_stop_ids_def split: if_splits)

lemma sorted_stop_ids_length:
  "sorted_stop_ids pairs = Inr ids \<Longrightarrow> length ids = length pairs"
  by (auto simp: sorted_stop_ids_def split: if_splits)

lemma sorted_stop_ids_distinct:
  "sorted_stop_ids pairs = Inr ids \<Longrightarrow> distinct ids \<longleftrightarrow> distinct (map snd pairs)"
  using sorted_stop_ids_mset [of pairs ids] by (metis distinct_count_atmost_1 set_mset_mset)

lemma group_trips_keys:
  "group_trips self ts rt = Inr g \<Longrightarrow> distinct (map fst rt) \<Longrightarrow> distinct (map fst g)"
proof (induction ts arbitrary: rt)
  case Nil
  then show ?case by simp
next
  case (Cons a ts)
  obtain tid pairs where a: "a = (tid, pairs)" by (cases a)
  from Cons.prems show ?case
    unfolding a
    by (auto split: option.splits if_splits sum.splits
        intro: Cons.IH distinct_dict_append)
qed

lemma group_trips_get:
  "group_trips self ts rt = Inr g \<Longrightarrow> truthy rid \<Longrightarrow>
     \<exists>td. dict_get g rid = dict_get rt rid @ td
       \<and> list_all2
            (\<lambda>trip x. sorted_stop_ids (snd trip) = Inr (fst x)
               \<and> snd x = (case trip_to_shape self (fst trip) of None \<Rightarrow> PyStr [] | Some c \<Rightarrow> c))
            (filter (\<lambda>(trip_id, pairs). trip_to_route self trip_id = Some rid) ts) td"
proof (induction ts arbitrary: rt)
  case Nil
  then show ?case by simp
next
  case (Cons a ts)
  obtain tid pairs where a: "a = (tid, pairs)" by (cases a)
  show ?case
  proof (cases "trip_to_route self tid")
    case None
    with Cons.prems a have "group_trips self ts rt = Inr g" by simp
    from Cons.IH [OF this Cons.prems(2)] None a show ?thesis by simp
  next
    case (Some r)
    show ?thesis
    proof (cases "truthy r")
      case False
      with Cons.prems a Some have "group_trips self ts rt = Inr g" by simp
      moreover from False Cons.prems(2) have "r \<noteq> rid" by auto
      ultimately show ?thesis
        using Cons.IH [of rt] Cons.prems(2) Some a by simp
    next
      case True
      with Cons.prems a Some obtain ids where
        ids: "sorted_stop_ids pairs = Inr ids"
        and rest: "group_trips self ts
            (dict_append r (ids, case trip_to_shape self tid of None \<Rightarrow> PyStr [] | Some c \<Rightarrow> c) rt)
          = Inr g"
        by (auto split: sum.splits)
      from Cons.IH [OF rest Cons.prems(2)] obtain td where
        td: "dict_get g rid
            = dict_get (dict_append r (ids, case trip_to_shape self tid of None \<Rightarrow> PyStr [] | Some c \<Rightarrow> c) rt) rid @ td"
        and all2: "list_all2
            (\<lambda>trip x. sorted_stop_ids (snd trip) = Inr (fst x)
               \<and> snd x = (case trip_to_shape self (fst trip) of None \<Rightarrow> PyStr [] | Some c \<Rightarrow> c))
            (filter (\<lambda>(trip_id, pairs). trip_to_route self trip_id = Some rid) ts) td"
        by blast
      show ?thesis
      proof (cases "r = rid")
        case True
        with td all2 ids Some a show ?thesis
          by (intro exI [of _ "(ids, case trip_to_shape self tid of None \<Rightarrow> PyStr [] | Some c \<Rightarrow> c) # td"])
             (simp add: dict_get_append)
      next
        case False
        with td all2 Some a show ?thesis
          by (intro exI [of _ td]) (simp add: dict_get_append)
      qed
    qed
  qed
qed

lemma group_trips_falsy:
  "group_trips self ts rt = Inr g \<Longrightarrow> \<not> truthy rid \<Longrightarrow> dict_get g rid = dict_get rt rid"
proof (induction ts arbitrary: rt)
  case Nil
  then show ?case by simp
next
  case (Cons a ts)
  obtain tid pairs where a: "a = (tid, pairs)" by (cases a)
  from Cons.prems show ?case
    unfolding a
    by (auto simp: dict_get_append split: option.splits if_splits sum.splits dest!: Cons.IH)
qed

lemma emit_routes_append:
  "emit_routes self g rs = rs @ List.map_filter (\<lambda>(rid, td). make_route self rid td) g"
  by (induction g arbitrary: rs) (auto simp: List.map_filter_simps split: option.splits)

lemma make_route_Some:
  "make_route self rid td = Some r \<Longrightarrow>
     \<exists>ids sh. best_trip td = Some (ids, sh) \<and> route_id r = rid
       \<and> stop_ids r = filter (\<lambda>s. s \<in> dom (stops self)) ids \<and> 2 \<le> length (stop_ids r)"
  by (auto simp: make_route_def Let_def split: option.splits prod.splits if_splits)

lemma new_routes:
  "r \<in> set (List.map_filter (\<lambda>(rid, td). make_route self rid td) g) \<longleftrightarrow>
     (\<exists>rid td. (rid, td) \<in> set g \<and> make_route self rid td = Some r)"
  by (induction g) (auto simp: List.map_filter_simps split: option.splits)

section \<open>Reconstruction: the routes emitted\<close>

lemma group_member_get:
  assumes "group_trips self ts [] = Inr groups" and "(rid, td) \<in> set groups"
  shows "dict_get groups rid = td"
proof -
  from group_trips_keys [OF assms(1)] have "distinct (map fst groups)" by simp
  then show ?thesis using assms(2) by (rule dict_get_member)
qed

text \<open>
  Claim C6. When the trips have been grouped, \<^verbatim>\<open>_build_routes\<close> returns, and the routes
  it appends all have at least two stop ids, each the id of a parsed stop; a route id whose
  representative trip has fewer than two stop ids among the parsed stops has no route
  among them. Dropping a route raises nothing.
\<close>

theorem build_routes_min_two_stops:
  assumes "group_trips self (trip_stops self) [] = Inr groups"
  shows "\<exists>new. build_routes self = Inr (self\<lparr>routes := routes self @ new\<rparr>)
     \<and> (\<forall>r \<in> set new. 2 \<le> length (stop_ids r) \<and> set (stop_ids r) \<subseteq> dom (stops self))
     \<and> (\<forall>rid ids sh. representative groups rid = Some (ids, sh)
            \<and> length (filter (\<lambda>s. s \<in> dom (stops self)) ids) < 2
          \<longrightarrow> (\<forall>r \<in> set new. route_id r \<noteq> rid))"
proof -
  let ?new = "List.map_filter (\<lambda>(rid, td). make_route self rid td) groups"
  have built: "build_routes self = Inr (self\<lparr>routes := routes self @ ?new\<rparr>)"
    using assms by (simp add: build_routes_def bind_exc_def emit_routes_append)
  have two: "2 \<le> length (stop_ids r) \<and> set (stop_ids r) \<subseteq> dom (stops self)"
    if "r \<in> set ?new" for r
  proof -
    from that obtain rid td where "make_route self rid td = Some r"
      by (auto simp: new_routes)
    from make_route_Some [OF this] show ?thesis by auto
  qed
  have dropped: "route_id r \<noteq> rid"
    if rep: "representative groups rid = Some (ids, sh)"
      and short: "length (filter (\<lambda>s. s \<in> dom (stops self)) ids) < 2"
      and r: "r \<in> set ?new" for rid ids sh r
  proof
    assume same: "route_id r = rid"
    from r obtain rid' td where mem: "(rid', td) \<in> set groups"
      and made: "make_route self rid' td = Some r"
      by (auto simp: new_routes)
    from make_route_Some [OF made] obtain ids' sh' where
      best: "best_trip td = Some (ids', sh')" and id: "route_id r = rid'"
      and stops: "stop_ids r = filter (\<lambda>s. s \<in> dom (stops self)) ids'"
      and len: "2 \<le> length (stop_ids r)"
      by blast
    from group_member_get [OF assms mem] same id have "dict_get groups rid = td" by simp
    with rep best have "ids' = ids" by (simp add: representative_def)
    with stops len short show False by simp
  qed
  from built two dropped show ?thesis by blast
qed

text \<open>
  The theorem at the state with the routes \<open>R1\<close> and \<open>R2\<close>: the trip of \<open>R2\<close> calls
  at one parsed stop only, and \<open>R1\<close> alone is appended.
\<close>

theorem build_routes_min_two_stops_witness:
  "group_trips short_route_state (trip_stops short_route_state) []
     = Inr [(PyStr ''R1'', [([PyStr ''A'', PyStr ''B''], PyStr [])]),
            (PyStr ''R2'', [([PyStr ''A'', PyStr ''X''], PyStr [])])]
   \<and> build_routes short_route_state
     = Inr (short_route_state\<lparr>routes :=
         [\<lparr>route_id = PyStr ''R1'', route_name = PyStr ''Unknown'', route_type = 3,
           stop_ids = [PyStr ''A'', PyStr ''B''], shape_coords = []\<rparr>]\<rparr>)"
proof -
  have g: "group_trips short_route_state (trip_stops short_route_state) []
     = Inr [(PyStr ''R1'', [([PyStr ''A'', PyStr ''B''], PyStr [])]),
            (PyStr ''R2'', [([PyStr ''A'', PyStr ''X''], PyStr [])])]"
    by (simp add: short_route_state_def new_parser_def sorted_stop_ids_def mixed_tie_def)
  from build_routes_min_two_stops [OF g] g show ?thesis
    by (simp add: build_routes_def bind_exc_def make_route_def best_trip_def
          short_route_state_def new_parser_def normalize_route_type_def type_mapping_def)
qed

lemma dict_append_members:
  "(k, vs) \<in> set (dict_append k' v d) \<Longrightarrow> x \<in> set vs \<Longrightarrow>
     x = v \<or> (\<exists>vs0. (k, vs0) \<in> set d \<and> x \<in> set vs0)"
proof (induction d)
  case Nil
  then show ?case by auto
next
  case (Cons a d)
  obtain k0 vs0 where a: "a = (k0, vs0)" by (cases a)
  show ?case
  proof (cases "k' = k0")
    case True
    with Cons.prems(1) a have "(k, vs) = (k0, vs0 @ [v]) \<or> (k, vs) \<in> set d" by simp
    then show ?thesis
    proof
      assume "(k, vs) = (k0, vs0 @ [v])"
      with Cons.prems(2) have "x = v \<or> ((k, vs0) \<in> set (a # d) \<and> x \<in> set vs0)"
        by (auto simp: a)
      then show ?thesis by blast
    next
      assume "(k, vs) \<in> set d"
      with Cons.prems(2) have "(k, vs) \<in> set (a # d) \<and> x \<in> set vs" by simp
      then show ?thesis by blast
    qed
  next
    case False
    with Cons.prems(1) a have "(k, vs) = (k0, vs0) \<or> (k, vs) \<in> set (dict_append k' v d)"
      by simp
    then show ?thesis
    proof
      assume "(k, vs) = (k0, vs0)"
      with Cons.prems(2) a have "(k, vs) \<in> set (a # d) \<and> x \<in> set vs" by simp
      then show ?thesis by blast
    next
      assume "(k, vs) \<in> set (dict_append k' v d)"
      from Cons.IH [OF this Cons.prems(2)] show ?thesis by auto
    qed
  qed
qed

lemma list_all2_set1:
  "list_all2 R xs ys \<Longrightarrow> x \<in> set xs \<Longrightarrow> \<exists>y \<in> set ys. R x y"
  by (induction rule: list_all2_induct) auto

lemma list_all2_set2:
  "list_all2 R xs ys \<Longrightarrow> y \<in> set ys \<Longrightarrow> \<exists>x \<in> set xs. R x y"
  by (induction rule: list_all2_induct) auto

text \<open>
  The group of a route that is emitted: the key is a truthy route id, and each element of
  the group comes from a trip of that route.
\<close>

lemma group_trips_source:
  assumes "group_trips self (trip_stops self) [] = Inr groups"
    and "dict_get groups rid = td" and "x \<in> set td"
  shows "\<exists>trip \<in> set (trips_of self rid). sorted_stop_ids (snd trip) = Inr (fst x)"
proof -
  have "truthy rid"
  proof (rule ccontr)
    assume "\<not> truthy rid"
    from group_trips_falsy [OF assms(1) this] assms(2) have "td = []" by simp
    with assms(3) show False by simp
  qed
  from group_trips_get [OF assms(1) this] assms(2) have
    "list_all2
       (\<lambda>trip x. sorted_stop_ids (snd trip) = Inr (fst x)
          \<and> snd x = (case trip_to_shape self (fst trip) of None \<Rightarrow> PyStr [] | Some c \<Rightarrow> c))
       (trips_of self rid) td"
    by (auto simp: trips_of_def)
  from list_all2_set2 [OF this assms(3)] show ?thesis by auto
qed

text \<open>
  Claim C2, as amended. The code removes no duplicates. The stop ids of every route that
  \<^verbatim>\<open>_build_routes\<close> appends are the ordered stop ids of the route's representative, which
  are those of a trip of the route, restricted to the parsed stops and otherwise
  unchanged: every parsed stop occurs in them as many times as in the stop-time entries
  of that trip. So they are without duplicates exactly when the trip names no parsed stop
  twice.
\<close>

theorem build_routes_stop_ids:
  assumes "group_trips self (trip_stops self) [] = Inr groups"
  shows "\<exists>new. build_routes self = Inr (self\<lparr>routes := routes self @ new\<rparr>)
     \<and> (\<forall>r \<in> set new. \<exists>trip ids sh.
            trip \<in> set (trips_of self (route_id r))
          \<and> sorted_stop_ids (snd trip) = Inr ids
          \<and> representative groups (route_id r) = Some (ids, sh)
          \<and> stop_ids r = filter (\<lambda>s. s \<in> dom (stops self)) ids
          \<and> mset (stop_ids r)
              = filter_mset (\<lambda>s. s \<in> dom (stops self)) (mset (map snd (snd trip)))
          \<and> (distinct (stop_ids r)
              \<longleftrightarrow> distinct (filter (\<lambda>s. s \<in> dom (stops self)) (map snd (snd trip)))))"
proof -
  let ?new = "List.map_filter (\<lambda>(rid, td). make_route self rid td) groups"
  let ?P = "\<lambda>s. s \<in> dom (stops self)"
  have built: "build_routes self = Inr (self\<lparr>routes := routes self @ ?new\<rparr>)"
    using assms(1) by (simp add: build_routes_def bind_exc_def emit_routes_append)
  have "\<exists>trip ids sh.
            trip \<in> set (trips_of self (route_id r))
          \<and> sorted_stop_ids (snd trip) = Inr ids
          \<and> representative groups (route_id r) = Some (ids, sh)
          \<and> stop_ids r = filter ?P ids
          \<and> mset (stop_ids r) = filter_mset ?P (mset (map snd (snd trip)))
          \<and> (distinct (stop_ids r) \<longleftrightarrow> distinct (filter ?P (map snd (snd trip))))"
    if "r \<in> set ?new" for r
  proof -
    from that obtain rid td where mem: "(rid, td) \<in> set groups"
      and made: "make_route self rid td = Some r"
      by (auto simp: new_routes)
    from make_route_Some [OF made] obtain ids sh where
      best: "best_trip td = Some (ids, sh)" and id: "route_id r = rid"
      and stops: "stop_ids r = filter ?P ids"
      by blast
    from group_member_get [OF assms mem] have get: "dict_get groups rid = td" .
    with best have rep: "representative groups rid = Some (ids, sh)"
      by (simp add: representative_def)
    from best_trip_member [OF best] have "(ids, sh) \<in> set td" .
    from group_trips_source [OF assms get this] obtain trip where
      trip: "trip \<in> set (trips_of self rid)" and ids: "sorted_stop_ids (snd trip) = Inr ids"
      by auto
    from sorted_stop_ids_mset [OF ids] have same: "mset ids = mset (map snd (snd trip))" .
    have "mset (filter ?P ids) = filter_mset ?P (mset ids)" by simp
    with same stops have count: "mset (stop_ids r) = filter_mset ?P (mset (map snd (snd trip)))"
      by simp
    then have "mset (stop_ids r) = mset (filter ?P (map snd (snd trip)))" by simp
    then have "distinct (stop_ids r) \<longleftrightarrow> distinct (filter ?P (map snd (snd trip)))"
      by (rule mset_eq_imp_distinct_iff)
    with trip ids rep stops count show ?thesis
      unfolding id by blast
  qed
  with built show ?thesis by blast
qed

text \<open>
  The theorem at \<open>loop_state\<close>, the state of the parse of \<open>loop_archive\<close> before the
  reconstruction: the one route appended has the stop ids \<open>A\<close>, \<open>B\<close>, \<open>A\<close> of the trip
  \<open>T1\<close>.
\<close>

theorem build_routes_stop_ids_witness:
  "group_trips loop_state (trip_stops loop_state) []
     = Inr [(PyStr ''R1'', [([PyStr ''A'', PyStr ''B'', PyStr ''A''], PyStr [])])]
   \<and> build_routes loop_state = Inr (loop_state\<lparr>routes := [loop_route]\<rparr>)
   \<and> (\<exists>trip ids sh.
          trip \<in> set (trips_of loop_state (PyStr ''R1''))
        \<and> sorted_stop_ids (snd trip) = Inr ids
        \<and> representative [(PyStr ''R1'', [([PyStr ''A'', PyStr ''B'', PyStr ''A''], PyStr [])])]
             (PyStr ''R1'') = Some (ids, sh)
        \<and> [PyStr ''A'', PyStr ''B'', PyStr ''A'']
            = filter (\<lambda>s. s \<in> dom (stops loop_state)) ids
        \<and> mset [PyStr ''A'', PyStr ''B'', PyStr ''A'']
            = filter_mset (\<lambda>s. s \<in> dom (stops loop_state)) (mset (map snd (snd trip))))"
proof -
  have g: "group_trips loop_state (trip_stops loop_state) []
     = Inr [(PyStr ''R1'', [([PyStr ''A'', PyStr ''B'', PyStr ''A''], PyStr [])])]"
    by (simp add: loop_state_def new_parser_def sorted_stop_ids_def mixed_tie_def)
  from build_routes_stop_ids [OF g] obtain new where
    new: "build_routes loop_state = Inr (loop_state\<lparr>routes := routes loop_state @ new\<rparr>)"
    and all: "\<forall>r \<in> set new. \<exists>trip ids sh.
            trip \<in> set (trips_of loop_state (route_id r))
          \<and> sorted_stop_ids (snd trip) = Inr ids
          \<and> representative [(PyStr ''R1'', [([PyStr ''A'', PyStr ''B'', PyStr ''A''], PyStr [])])]
               (route_id r) = Some (ids, sh)
          \<and> stop_ids r = filter (\<lambda>s. s \<in> dom (stops loop_state)) ids
          \<and> mset (stop_ids r)
              = filter_mset (\<lambda>s. s \<in> dom (stops loop_state)) (mset (map snd (snd trip)))
          \<and> (distinct (stop_ids r)
              \<longleftrightarrow> distinct (filter (\<lambda>s. s \<in> dom (stops loop_state)) (map snd (snd trip))))"
    by (elim exE conjE) (rule that; assumption)
  have built: "build_routes loop_state = Inr (loop_state\<lparr>routes := [loop_route]\<rparr>)"
    by (simp add: build_routes_def bind_exc_def sorted_stop_ids_def mixed_tie_def
          make_route_def best_trip_def stop_at_def
          loop_state_def loop_route_def new_parser_def normalize_route_type_def type_mapping_def)
  from new built have "routes (loop_state\<lparr>routes := routes loop_state @ new\<rparr>)
      = routes (loop_state\<lparr>routes := [loop_route]\<rparr>)"
    by simp
  then have "new = [loop_route]"
    by (simp add: loop_state_def new_parser_def)
  with all have "\<exists>trip ids sh.
          trip \<in> set (trips_of loop_state (PyStr ''R1''))
        \<and> sorted_stop_ids (snd trip) = Inr ids
        \<and> representative [(PyStr ''R1'', [([PyStr ''A'', PyStr ''B'', PyStr ''A''], PyStr [])])]
             (PyStr ''R1'') = Some (ids, sh)
        \<and> [PyStr ''A'', PyStr ''B'', PyStr ''A'']
            = filter (\<lambda>s. s \<in> dom (stops loop_state)) ids
        \<and> mset [PyStr ''A'', PyStr ''B'', PyStr ''A'']
            = filter_mset (\<lambda>s. s \<in> dom (stops loop_state)) (mset (map snd (snd trip)))"
    by (simp add: loop_route_def) blast
  with g built show ?thesis
    by - (intro conjI; assumption)
qed

text \<open>
  The claim as stated fails: the archive \<open>loop_archive\<close> parses, and the stop ids of
  its one route are \<open>A\<close>, \<open>B\<close>, \<open>A\<close>.
\<close>

theorem parse_zip_repeated_stop:
  "(case parse_zip decimal decimal (Some loop_archive) (new_parser :: int parser) of
      Inl e \<Rightarrow> False
    | Inr (ok, s) \<Rightarrow> ok \<and> map stop_ids (routes s) = [[PyStr ''A'', PyStr ''B'', PyStr ''A'']])
   \<and> \<not> distinct [PyStr ''A'', PyStr ''B'', PyStr ''A'']"
  by (simp add: parse_zip_def parse_zip_with_def parse_table_def loop_archive_def
        parse_stops_def stops_row_def parse_trips_def trips_row_def
        parse_stop_times_def stop_times_row_def
        bind_exc_def getitem_def py_int_def py_float_def decimal_def digit_of_def
        key_or_value_error_def key_error_def
        build_routes_def sorted_stop_ids_def mixed_tie_def make_route_def best_trip_def
        new_parser_def normalize_route_type_def type_mapping_def)

text \<open>
  Claim C4. For a route id (a non-empty string, as \<^verbatim>\<open>if route_id:\<close> requires) to which
  \<open>trip_to_route\<close> maps at least one trip of \<open>trip_stops\<close>, the representative is taken
  from the first trip, in the insertion order of \<open>trip_stops\<close>, with the greatest number
  of stop-time entries: every trip of the route before it has strictly fewer entries,
  every trip after it has at most as many. The representative is that trip's ordered stop
  ids together with that trip's shape id.
\<close>

theorem representative_first_longest:
  assumes "group_trips self (trip_stops self) [] = Inr groups"
    and "truthy rid" and "trips_of self rid \<noteq> []"
  shows "\<exists>pre trip post ids sh.
      trips_of self rid = pre @ trip # post
      \<and> representative groups rid = Some (ids, sh)
      \<and> sorted_stop_ids (snd trip) = Inr ids
      \<and> sh = (case trip_to_shape self (fst trip) of None \<Rightarrow> PyStr [] | Some c \<Rightarrow> c)
      \<and> (\<forall>t \<in> set pre. length (snd t) < length (snd trip))
      \<and> (\<forall>t \<in> set post. length (snd t) \<le> length (snd trip))"
proof -
  define R where "R = (\<lambda>(trip :: cell \<times> (int \<times> cell) list) (x :: cell list \<times> cell).
      sorted_stop_ids (snd trip) = Inr (fst x)
      \<and> snd x = (case trip_to_shape self (fst trip) of None \<Rightarrow> PyStr [] | Some c \<Rightarrow> c))"
  have len: "length (fst x) = length (snd t)" if "R t x" for t x
    using that sorted_stop_ids_length [of "snd t" "fst x"] by (simp add: R_def)
  from group_trips_get [OF assms(1,2)] obtain td where
    td: "dict_get groups rid = td" and all2: "list_all2 R (trips_of self rid) td"
    by (auto simp: trips_of_def R_def)
  from all2 assms(3) have "td \<noteq> []" by auto
  from best_trip_Some [OF this] obtain m where best: "best_trip td = Some m" by blast
  from best_trip_first_max [OF best] obtain pre' post' where
    split: "td = pre' @ m # post'"
    and before: "\<forall>a \<in> set pre'. length (fst a) < length (fst m)"
    and after: "\<forall>a \<in> set post'. length (fst a) \<le> length (fst m)"
    by blast
  from all2 split obtain pre rest where
    trips: "trips_of self rid = pre @ rest"
    and pre: "list_all2 R pre pre'" and rest: "list_all2 R rest (m # post')"
    by (auto simp: list_all2_append2)
  from rest obtain trip post where
    rest_eq: "rest = trip # post" and trip: "R trip m" and post: "list_all2 R post post'"
    by (auto simp: list_all2_Cons2)
  have shorter: "\<forall>t \<in> set pre. length (snd t) < length (snd trip)"
  proof
    fix t
    assume "t \<in> set pre"
    from list_all2_set1 [OF pre this] obtain x where "x \<in> set pre'" "R t x" by blast
    with before len [of t x] len [OF trip] show "length (snd t) < length (snd trip)" by auto
  qed
  have not_longer: "\<forall>t \<in> set post. length (snd t) \<le> length (snd trip)"
  proof
    fix t
    assume "t \<in> set post"
    from list_all2_set1 [OF post this] obtain x where "x \<in> set post'" "R t x" by blast
    with after len [of t x] len [OF trip] show "length (snd t) \<le> length (snd trip)" by auto
  qed
  from trips rest_eq have split_trips: "trips_of self rid = pre @ trip # post" by simp
  from td best have rep: "representative groups rid = Some (fst m, snd m)"
    by (simp add: representative_def)
  from trip have ids: "sorted_stop_ids (snd trip) = Inr (fst m)"
    and shape: "snd m = (case trip_to_shape self (fst trip) of None \<Rightarrow> PyStr [] | Some c \<Rightarrow> c)"
    by (simp_all add: R_def)
  from split_trips rep ids shape shorter not_longer show ?thesis
    by - (rule exI [of _ pre], rule exI [of _ trip], rule exI [of _ post],
          rule exI [of _ "fst m"], rule exI [of _ "snd m"], intro conjI; assumption)
qed

text \<open>
  What the theorem says of a route with two trips: the second trip is the
  representative when it has more entries than the first, the first one otherwise.
\<close>

lemma first_longest_of_two:
  assumes "[a, b] = pre @ trip # post"
    and "\<forall>t \<in> set pre. length (snd t) < length (snd trip)"
    and "\<forall>t \<in> set post. length (snd t) \<le> length (snd trip)"
  shows "trip = (if length (snd a) < length (snd b) then b else a)"
proof (cases pre)
  case Nil
  with assms(1) have "trip = a" "post = [b]" by simp_all
  with assms(3) show ?thesis by simp
next
  case (Cons p pre')
  with assms(1) have p: "p = a" and rest: "[b] = pre' @ trip # post" by simp_all
  from rest have "pre' = []" by (cases pre') simp_all
  with rest have "trip = b" by simp
  with assms(2) Cons p show ?thesis by simp
qed

lemma representative_of_two:
  assumes "\<exists>pre trip post ids sh.
      trips = pre @ trip # post
      \<and> rep = Some (ids, sh)
      \<and> sorted_stop_ids (snd trip) = Inr ids
      \<and> sh = (case shape_of (fst trip) of None \<Rightarrow> PyStr [] | Some c \<Rightarrow> c)
      \<and> (\<forall>t \<in> set pre. length (snd t) < length (snd trip))
      \<and> (\<forall>t \<in> set post. length (snd t) \<le> length (snd trip))"
    and "trips = [a, b]"
  shows "\<exists>ids. sorted_stop_ids (snd (if length (snd a) < length (snd b) then b else a)) = Inr ids
     \<and> rep = Some (ids,
         case shape_of (fst (if length (snd a) < length (snd b) then b else a)) of
           None \<Rightarrow> PyStr [] | Some c \<Rightarrow> c)"
proof -
  from assms(1) obtain pre trip post ids sh where
    split: "trips = pre @ trip # post" and rep: "rep = Some (ids, sh)"
    and ids: "sorted_stop_ids (snd trip) = Inr ids"
    and sh: "sh = (case shape_of (fst trip) of None \<Rightarrow> PyStr [] | Some c \<Rightarrow> c)"
    and before: "\<forall>t \<in> set pre. length (snd t) < length (snd trip)"
    and after: "\<forall>t \<in> set post. length (snd t) \<le> length (snd trip)"
    by (elim exE conjE) (rule that; assumption)
  from split assms(2) have "[a, b] = pre @ trip # post" by simp
  from first_longest_of_two [OF this before after]
  have "trip = (if length (snd a) < length (snd b) then b else a)" .
  with rep ids sh show ?thesis by blast
qed

text \<open>
  The claim's example: trips of five and of eight stops on one route; the trip of eight
  stops is the representative, whichever comes first. And a tie: the rows of
  \<open>tie_trips\<close> and \<open>tie_stop_times\<close> leave \<open>tie_state\<close>, where the trips \<open>T2\<close> and \<open>T1\<close>
  have two entries each; the representative is that of \<open>T2\<close>, the first of the two in
  \<open>trip_stops\<close>, with the stops and the shape of \<open>T2\<close>.
\<close>

theorem representative_first_longest_witness:
  "(case group_trips five_eight_state (trip_stops five_eight_state) [] of
      Inl e \<Rightarrow> None
    | Inr g \<Rightarrow> representative g (PyStr ''R'')) = Some (map snd eight_stops, PyStr [])
   \<and> (case group_trips eight_five_state (trip_stops eight_five_state) [] of
      Inl e \<Rightarrow> None
    | Inr g \<Rightarrow> representative g (PyStr ''R'')) = Some (map snd eight_stops, PyStr [])
   \<and> bind_exc (parse_trips tie_trips new_parser) (parse_stop_times decimal tie_stop_times)
       = Inr tie_state
   \<and> (case group_trips tie_state (trip_stops tie_state) [] of
      Inl e \<Rightarrow> None
    | Inr g \<Rightarrow> representative g (PyStr ''R''))
       = Some ([PyStr ''C'', PyStr ''D''], PyStr ''SH2'')"
proof -
  have five: "sorted_stop_ids five_stops = Inr (map snd five_stops)"
    by (simp add: sorted_stop_ids_def mixed_tie_def five_stops_def)
  have eight: "sorted_stop_ids eight_stops = Inr (map snd eight_stops)"
    by (simp add: sorted_stop_ids_def mixed_tie_def eight_stops_def)
  have lengths: "length five_stops < length eight_stops"
    by (simp add: five_stops_def eight_stops_def)
  have t: "truthy (PyStr ''R'')" by simp
  obtain g1 where g1: "group_trips five_eight_state (trip_stops five_eight_state) [] = Inr g1"
    by (simp add: five_eight_state_def new_parser_def five eight)
  have tr1: "trips_of five_eight_state (PyStr ''R'')
      = [(PyStr ''T5'', five_stops), (PyStr ''T8'', eight_stops)]"
    by (simp add: trips_of_def five_eight_state_def new_parser_def)
  then have n1: "trips_of five_eight_state (PyStr ''R'') \<noteq> []" by simp
  from representative_of_two [OF representative_first_longest [OF g1 t n1] tr1] lengths
  have r1: "representative g1 (PyStr ''R'') = Some (map snd eight_stops, PyStr [])"
    by (simp add: eight five_eight_state_def new_parser_def)
  obtain g2 where g2: "group_trips eight_five_state (trip_stops eight_five_state) [] = Inr g2"
    by (simp add: eight_five_state_def new_parser_def five eight)
  have tr2: "trips_of eight_five_state (PyStr ''R'')
      = [(PyStr ''T8'', eight_stops), (PyStr ''T5'', five_stops)]"
    by (simp add: trips_of_def eight_five_state_def new_parser_def)
  then have n2: "trips_of eight_five_state (PyStr ''R'') \<noteq> []" by simp
  from representative_of_two [OF representative_first_longest [OF g2 t n2] tr2] lengths
  have r2: "representative g2 (PyStr ''R'') = Some (map snd eight_stops, PyStr [])"
    by (simp add: eight eight_five_state_def new_parser_def)
  have parsed: "bind_exc (parse_trips tie_trips new_parser)
      (parse_stop_times decimal tie_stop_times) = Inr tie_state"
    by (simp add: tie_trips_def tie_stop_times_def tie_state_def
        parse_trips_def trips_row_def parse_stop_times_def stop_times_row_def
        bind_exc_def getitem_def py_int_def decimal_def digit_of_def
        key_or_value_error_def key_error_def new_parser_def)
  obtain g3 where g3: "group_trips tie_state (trip_stops tie_state) [] = Inr g3"
    by (simp add: tie_state_def new_parser_def sorted_stop_ids_def mixed_tie_def)
  have tr3: "trips_of tie_state (PyStr ''R'')
      = [(PyStr ''T2'', [(1, PyStr ''C''), (2, PyStr ''D'')]),
         (PyStr ''T1'', [(1, PyStr ''A''), (2, PyStr ''B'')])]"
    by (simp add: trips_of_def tie_state_def new_parser_def)
  then have n3: "trips_of tie_state (PyStr ''R'') \<noteq> []" by simp
  from representative_of_two [OF representative_first_longest [OF g3 t n3] tr3]
  have r3: "representative g3 (PyStr ''R'') = Some ([PyStr ''C'', PyStr ''D''], PyStr ''SH2'')"
    by (simp add: sorted_stop_ids_def mixed_tie_def tie_state_def new_parser_def)
  from r1 r2 r3 parsed show ?thesis
    by (simp add: g1 g2 g3)
qed

section \<open>The early exit of the stop-times pass\<close>

lemma filter_dict_append:
  "filter (\<lambda>(k, v). k \<in> K) (dict_append k v d) =
     (if k \<in> K then dict_append k v (filter (\<lambda>(k, v). k \<in> K) d)
      else filter (\<lambda>(k, v). k \<in> K) d)"
  by (induction d) auto

text \<open>
  What the loop body of \<^verbatim>\<open>_parse_stop_times\<close> does with a row, in the terms of the
  variant: a row it gets through is stored when it is well-formed and of a known trip and
  changes nothing otherwise; a row it skips on a caught exception is not well-formed.
\<close>

lemma stop_times_row_Inr:
  assumes "stop_times_row int_of K r s0 = Inr s1"
  shows "s1 = (case well_formed_stop_time int_of r of
                 None \<Rightarrow> s0
               | Some (tid, seq, sid) \<Rightarrow>
                   if tid \<in> K
                   then s0\<lparr>trip_stops := dict_append tid (seq, sid) (trip_stops s0)\<rparr>
                   else s0)"
proof (cases "r ''trip_id''")
  case None
  with assms show ?thesis
    by (simp add: stop_times_row_def bind_exc_def getitem_def)
next
  case (Some tid)
  show ?thesis
  proof (cases "tid \<in> K")
    case False
    with assms Some show ?thesis
      by (simp add: stop_times_row_def well_formed_stop_time_def bind_exc_def getitem_def
          split: option.splits cell.splits)
  next
    case True
    with assms Some show ?thesis
      by (auto simp: stop_times_row_def well_formed_stop_time_def bind_exc_def getitem_def
          py_int_def split: option.splits cell.splits)
  qed
qed

lemma stop_times_row_Inl:
  assumes "stop_times_row int_of K r s0 = Inl e" and "key_or_value_error e"
  shows "well_formed_stop_time int_of r = None"
proof (cases "r ''trip_id''")
  case None
  then show ?thesis by (simp add: well_formed_stop_time_def)
next
  case (Some tid)
  with assms have "tid \<in> K"
    by (auto simp: stop_times_row_def bind_exc_def getitem_def split: if_splits)
  with assms Some show ?thesis
    by (auto simp: stop_times_row_def well_formed_stop_time_def bind_exc_def getitem_def
        py_int_def key_or_value_error_def split: option.splits cell.splits)
qed

lemma stop_times_refines:
  assumes "for_rows key_or_value_error (stop_times_row int_of K) rows s0 = Inr s"
    and "u0 = s0\<lparr>trip_stops := trip_stops u0\<rparr>"
    and "filter (\<lambda>(k, v). k \<in> K) (trip_stops u0) = filter (\<lambda>(k, v). k \<in> K) (trip_stops s0)"
  shows "accumulate_well_formed int_of rows u0
       = s\<lparr>trip_stops := trip_stops (accumulate_well_formed int_of rows u0)\<rparr>
     \<and> filter (\<lambda>(k, v). k \<in> K) (trip_stops (accumulate_well_formed int_of rows u0))
       = filter (\<lambda>(k, v). k \<in> K) (trip_stops s)"
  using assms
proof (induction rows arbitrary: u0 s0)
  case Nil
  then show ?case by simp
next
  case (Cons r rows)
  show ?case
  proof (cases "stop_times_row int_of K r s0")
    case (Inl e)
    with Cons.prems(1) have caught: "key_or_value_error e"
      and rest: "for_rows key_or_value_error (stop_times_row int_of K) rows s0 = Inr s"
      by (auto split: if_splits)
    from stop_times_row_Inl [OF Inl caught]
    have "accumulate_well_formed int_of (r # rows) u0 = accumulate_well_formed int_of rows u0"
      by simp
    with Cons.IH [OF rest Cons.prems(2,3)] show ?thesis
      by simp
  next
    case (Inr s1)
    with Cons.prems(1) have
      rest: "for_rows key_or_value_error (stop_times_row int_of K) rows s1 = Inr s"
      by simp
    define u1 where "u1 = (case well_formed_stop_time int_of r of
          None \<Rightarrow> u0
        | Some (tid, seq, sid) \<Rightarrow>
            u0\<lparr>trip_stops := dict_append tid (seq, sid) (trip_stops u0)\<rparr>)"
    have step: "accumulate_well_formed int_of (r # rows) u0 = accumulate_well_formed int_of rows u1"
      by (simp add: u1_def)
    note s1 = stop_times_row_Inr [OF Inr]
    from Cons.prems(2) obtain t0 where u0: "u0 = s0\<lparr>trip_stops := t0\<rparr>"
      by (rule that)
    have same: "u1 = s1\<lparr>trip_stops := trip_stops u1\<rparr>"
      by (simp add: u1_def s1 u0 split: option.splits prod.splits)
    have filt: "filter (\<lambda>(k, v). k \<in> K) (trip_stops u1)
        = filter (\<lambda>(k, v). k \<in> K) (trip_stops s1)"
      using Cons.prems(3)
      by (simp add: u1_def s1 filter_dict_append split: option.splits prod.splits)
    from Cons.IH [OF rest same filt] step show ?thesis
      by simp
  qed
qed

lemma group_trips_known_only:
  "group_trips self (filter (\<lambda>(k, v). k \<in> dom (trip_to_route self)) ts) rt
     = group_trips self ts rt"
proof (induction ts arbitrary: rt)
  case Nil
  show ?case by simp
next
  case (Cons a ts)
  obtain tid pairs where a: "a = (tid, pairs)" by (cases a)
  show ?case
  proof (cases "trip_to_route self tid")
    case None
    then have "tid \<notin> dom (trip_to_route self)" by (simp add: domIff)
    with None a Cons.IH show ?thesis by simp
  next
    case (Some r)
    then have "tid \<in> dom (trip_to_route self)" by (simp add: domIff)
    with Some a Cons.IH show ?thesis by (simp split: sum.splits)
  qed
qed

lemma group_trips_cong:
  "trip_to_route u = trip_to_route s \<Longrightarrow> trip_to_shape u = trip_to_shape s \<Longrightarrow>
     group_trips u ts rt = group_trips s ts rt"
proof (induction ts arbitrary: rt)
  case Nil
  show ?case by simp
next
  case (Cons a ts)
  obtain tid pairs where a: "a = (tid, pairs)" by (cases a)
  from Cons show ?case
    unfolding a by (auto split: option.splits sum.splits)
qed

lemma make_route_cong:
  "stops u = stops s \<Longrightarrow> shapes u = shapes s \<Longrightarrow> route_info u = route_info s \<Longrightarrow>
     make_route u rid td = make_route s rid td"
  by (simp add: make_route_def Let_def split: option.splits prod.splits)

lemma emit_routes_cong:
  "stops u = stops s \<Longrightarrow> shapes u = shapes s \<Longrightarrow> route_info u = route_info s \<Longrightarrow>
     emit_routes u g rs = emit_routes s g rs"
  by (induction g arbitrary: rs) (auto simp: make_route_cong [of u s])

text \<open>
  The reconstruction reads \<open>trip_stops\<close> only at the trips of \<open>trip_to_route\<close>: two states
  that differ in the entries of other trips only give the same stops and routes.
\<close>

lemma build_routes_refines:
  assumes "u = s\<lparr>trip_stops := trip_stops u\<rparr>"
    and "filter (\<lambda>(k, v). k \<in> dom (trip_to_route s)) (trip_stops u)
       = filter (\<lambda>(k, v). k \<in> dom (trip_to_route s)) (trip_stops s)"
    and "build_routes s = Inr s'"
  shows "\<exists>u'. build_routes u = Inr u' \<and> stops u' = stops s' \<and> routes u' = routes s'"
proof -
  from assms(1) obtain ts where u: "u = s\<lparr>trip_stops := ts\<rparr>" by (rule that)
  have fields: "trip_to_route u = trip_to_route s" "trip_to_shape u = trip_to_shape s"
    "stops u = stops s" "shapes u = shapes s" "route_info u = route_info s"
    "routes u = routes s"
    by (simp_all add: u)
  have "group_trips u (trip_stops u) [] = group_trips s (trip_stops u) []"
    using fields(1,2) by (rule group_trips_cong)
  also have "\<dots> = group_trips s (filter (\<lambda>(k, v). k \<in> dom (trip_to_route s)) (trip_stops u)) []"
    by (simp add: group_trips_known_only)
  also have "\<dots> = group_trips s (trip_stops s) []"
    by (simp add: assms(2) group_trips_known_only)
  finally have groups: "group_trips u (trip_stops u) [] = group_trips s (trip_stops s) []" .
  from assms(3) obtain g where g: "group_trips s (trip_stops s) [] = Inr g"
    and s': "s' = s\<lparr>routes := emit_routes s g (routes s)\<rparr>"
    by (auto simp: build_routes_def bind_exc_def split: sum.splits)
  from g groups have "build_routes u = Inr (u\<lparr>routes := emit_routes u g (routes u)\<rparr>)"
    by (simp add: build_routes_def bind_exc_def)
  moreover have "emit_routes u g (routes u) = emit_routes s g (routes u)"
    using fields(3,4,5) by (rule emit_routes_cong)
  then have "emit_routes u g (routes u) = emit_routes s g (routes s)"
    by (simp add: fields(6))
  ultimately show ?thesis
    using s' fields by simp
qed

lemma for_rows_stop_times_keeps_routes:
  "for_rows caught (stop_times_row int_of K) rows s0 = Inr s \<Longrightarrow>
     trip_to_route s = trip_to_route s0"
proof (induction rows arbitrary: s0)
  case Nil
  then show ?case by simp
next
  case (Cons r rows)
  show ?case
  proof (cases "stop_times_row int_of K r s0")
    case (Inl e)
    with Cons show ?thesis by (auto split: if_splits)
  next
    case (Inr s1)
    then have "trip_to_route s1 = trip_to_route s0"
      by (auto simp: stop_times_row_def bind_exc_def split: sum.splits if_splits)
    with Cons Inr show ?thesis by auto
  qed
qed

text \<open>
  Claim C9. The variant is \<^verbatim>\<open>_parse_zip\<close> with the stop-times pass that accumulates
  every well-formed row, of a known trip or not, and skips the others. Whenever
  \<^verbatim>\<open>_parse_zip\<close> returns, on any archive and from any state, the variant returns the same
  flag, the same stops mapping and the same sequence of routes: the rows that the early
  exit discards do not reach the output.
\<close>

theorem parse_zip_filter_refines:
  assumes "parse_zip int_of float_of zip_data self = Inr (ok, s)"
  shows "\<exists>u. parse_zip_unfiltered int_of float_of zip_data self = Inr (ok, u)
     \<and> stops u = stops s \<and> routes u = routes s"
proof (cases zip_data)
  case None
  with assms show ?thesis
    by (simp add: parse_zip_def parse_zip_unfiltered_def parse_zip_with_def)
next
  case (Some zf)
  from assms Some obtain s4 s5 where
    s4: "bind_exc (parse_table zf ''stops.txt'' (parse_stops float_of) self) (\<lambda>s1.
         bind_exc (parse_table zf ''routes.txt'' (parse_routes int_of) s1) (\<lambda>s2.
         bind_exc (parse_table zf ''trips.txt'' parse_trips s2) (\<lambda>s3.
         parse_table zf ''shapes.txt'' (parse_shapes int_of float_of) s3))) = Inr s4"
    and s5: "parse_table zf ''stop_times.txt'' (parse_stop_times int_of) s4 = Inr s5"
    and built: "build_routes s5 = Inr s" and ok: "ok"
    by (auto simp: parse_zip_def parse_zip_with_def bind_exc_def split: sum.splits)
  have "\<exists>u5. parse_table zf ''stop_times.txt'' (parse_stop_times_unfiltered int_of) s4 = Inr u5
      \<and> u5 = s5\<lparr>trip_stops := trip_stops u5\<rparr>
      \<and> filter (\<lambda>(k, v). k \<in> dom (trip_to_route s5)) (trip_stops u5)
          = filter (\<lambda>(k, v). k \<in> dom (trip_to_route s5)) (trip_stops s5)"
  proof (cases "zf ''stop_times.txt''")
    case None
    with s5 show ?thesis by (simp add: parse_table_def)
  next
    case (Some rows)
    with s5 have loop:
      "for_rows key_or_value_error (stop_times_row int_of (dom (trip_to_route s4))) rows s4 = Inr s5"
      by (simp add: parse_table_def parse_stop_times_def)
    have "s4 = s4\<lparr>trip_stops := trip_stops s4\<rparr>" by simp
    with loop have "accumulate_well_formed int_of rows s4
          = s5\<lparr>trip_stops := trip_stops (accumulate_well_formed int_of rows s4)\<rparr>
        \<and> filter (\<lambda>(k, v). k \<in> dom (trip_to_route s4))
            (trip_stops (accumulate_well_formed int_of rows s4))
          = filter (\<lambda>(k, v). k \<in> dom (trip_to_route s4)) (trip_stops s5)"
      using refl by (rule stop_times_refines)
    moreover from for_rows_stop_times_keeps_routes [OF loop]
    have "trip_to_route s5 = trip_to_route s4" .
    ultimately show ?thesis
      using Some by (simp add: parse_table_def parse_stop_times_unfiltered_def)
  qed
  then obtain u5 where
    u5: "parse_table zf ''stop_times.txt'' (parse_stop_times_unfiltered int_of) s4 = Inr u5"
    and same: "u5 = s5\<lparr>trip_stops := trip_stops u5\<rparr>"
    and filt: "filter (\<lambda>(k, v). k \<in> dom (trip_to_route s5)) (trip_stops u5)
          = filter (\<lambda>(k, v). k \<in> dom (trip_to_route s5)) (trip_stops s5)"
    by (elim exE conjE) (rule that; assumption)
  from build_routes_refines [OF same filt built] obtain u where
    u: "build_routes u5 = Inr u" "stops u = stops s" "routes u = routes s"
    by (elim exE conjE) (rule that; assumption)
  from s4 u5 u(1) ok Some have "parse_zip_unfiltered int_of float_of zip_data self = Inr (ok, u)"
    by (auto simp: parse_zip_unfiltered_def parse_zip_with_def bind_exc_def split: sum.splits)
  with u(2,3) show ?thesis by blast
qed

text \<open>
  On \<open>unknown_trip_archive\<close> the variant keeps the rows of the unknown trip \<open>T9\<close> in its
  \<open>trip_stops\<close> and returns the stops and the one route of \<^verbatim>\<open>_parse_zip\<close>. On
  \<open>short_row_archive\<close>, whose only stop-time row is of the unknown trip \<open>X\<close> and has no
  sequence number, both return \<^verbatim>\<open>True\<close> and no route.
\<close>

theorem parse_zip_filter_refines_witness:
  "parse_zip decimal decimal (Some unknown_trip_archive) new_parser
     = Inr (True, unknown_trip_result)
   \<and> (\<exists>u. parse_zip_unfiltered decimal decimal (Some unknown_trip_archive) (new_parser :: int parser)
          = Inr (True, u)
        \<and> stops u = stops unknown_trip_result
        \<and> routes u = routes unknown_trip_result
        \<and> map fst (trip_stops u) = [PyStr ''T9'', PyStr ''T1''])
   \<and> parse_zip decimal decimal (Some short_row_archive) (new_parser :: int parser)
     = Inr (True, new_parser)
   \<and> (\<exists>u. parse_zip_unfiltered decimal decimal (Some short_row_archive) (new_parser :: int parser)
          = Inr (True, u)
        \<and> stops u = stops (new_parser :: int parser)
        \<and> routes u = routes (new_parser :: int parser))"
proof -
  have src: "parse_zip decimal decimal (Some unknown_trip_archive) new_parser
      = Inr (True, unknown_trip_result)"
    by (simp add: parse_zip_def parse_zip_with_def parse_table_def
        unknown_trip_archive_def unknown_trip_result_def stop_at_def
        parse_stops_def stops_row_def parse_trips_def trips_row_def
        parse_stop_times_def stop_times_row_def
        bind_exc_def getitem_def py_int_def py_float_def decimal_def digit_of_def
        key_or_value_error_def key_error_def
        build_routes_def sorted_stop_ids_def mixed_tie_def make_route_def best_trip_def
        new_parser_def normalize_route_type_def type_mapping_def)
  from parse_zip_filter_refines [OF src] obtain u where
    u: "parse_zip_unfiltered decimal decimal (Some unknown_trip_archive) (new_parser :: int parser)
          = Inr (True, u)"
      "stops u = stops unknown_trip_result" "routes u = routes unknown_trip_result"
    by (elim exE conjE) (rule that; assumption)
  have "case parse_zip_unfiltered decimal decimal (Some unknown_trip_archive) (new_parser :: int parser) of
          Inl e \<Rightarrow> False
        | Inr (ok, u') \<Rightarrow> map fst (trip_stops u') = [PyStr ''T9'', PyStr ''T1'']"
    by (simp add: parse_zip_unfiltered_def parse_zip_with_def parse_table_def
        unknown_trip_archive_def
        parse_stops_def stops_row_def parse_trips_def trips_row_def
        parse_stop_times_unfiltered_def well_formed_stop_time_def
        bind_exc_def getitem_def py_int_def py_float_def decimal_def digit_of_def
        key_or_value_error_def key_error_def
        build_routes_def sorted_stop_ids_def mixed_tie_def make_route_def best_trip_def
        new_parser_def normalize_route_type_def type_mapping_def)
  with u(1) have kept: "map fst (trip_stops u) = [PyStr ''T9'', PyStr ''T1'']"
    by simp
  have short: "parse_zip decimal decimal (Some short_row_archive) (new_parser :: int parser)
      = Inr (True, new_parser)"
    by (simp add: parse_zip_def parse_zip_with_def parse_table_def
        short_row_archive_def parse_stop_times_def stop_times_row_def
        bind_exc_def getitem_def py_int_def key_or_value_error_def
        build_routes_def new_parser_def)
  note variant_short = parse_zip_filter_refines [OF short]
  from u kept have "\<exists>u. parse_zip_unfiltered decimal decimal (Some unknown_trip_archive)
            (new_parser :: int parser) = Inr (True, u)
        \<and> stops u = stops unknown_trip_result
        \<and> routes u = routes unknown_trip_result
        \<and> map fst (trip_stops u) = [PyStr ''T9'', PyStr ''T1'']"
    by - (rule exI [of _ u], intro conjI; assumption)
  with src short variant_short show ?thesis
    by - (intro conjI; assumption)
qed

section \<open>Archives without short rows\<close>

lemma for_rows_invariant:
  assumes "I s"
    and "\<And>r s. r \<in> set rows \<Longrightarrow> I s \<Longrightarrow>
           (\<exists>s'. body r s = Inr s' \<and> I s') \<or> (\<exists>e. body r s = Inl e \<and> caught e)"
  shows "\<exists>s'. for_rows caught body rows s = Inr s' \<and> I s'"
  using assms
proof (induction rows arbitrary: s)
  case Nil
  then show ?case by simp
next
  case (Cons r rows)
  from Cons.prems(2) [of r s] Cons.prems(1)
  consider s1 where "body r s = Inr s1" "I s1" | e where "body r s = Inl e" "caught e"
    by auto
  then show ?case
  proof cases
    case 1
    from Cons.IH [OF 1(2)] Cons.prems(2) 1(1) show ?thesis by simp
  next
    case 2
    from Cons.IH [OF Cons.prems(1)] Cons.prems(2) 2 show ?thesis by simp
  qed
qed

lemma caught_or_cases:
  "caught_or Q m \<Longrightarrow> (\<exists>x. m = Inr x \<and> Q x) \<or> (\<exists>e. m = Inl e \<and> key_or_value_error e)"
  by (cases m) (simp_all add: caught_or_def)

lemma caught_or_bind:
  "caught_or Q m \<Longrightarrow> (\<And>x. Q x \<Longrightarrow> caught_or R (f x)) \<Longrightarrow> caught_or R (bind_exc m f)"
  by (cases m) (simp_all add: caught_or_def bind_exc_def)

lemma caught_or_Inr: "Q x \<Longrightarrow> caught_or Q (Inr x)"
  by (simp add: caught_or_def)

lemma caught_or_getitem: "PyNone \<notin> ran r \<Longrightarrow> caught_or (\<lambda>c. c \<noteq> PyNone) (getitem r k)"
  by (cases "r k") (auto simp: caught_or_def getitem_def key_or_value_error_def ran_def)

lemma caught_or_py_int: "c \<noteq> PyNone \<Longrightarrow> caught_or (\<lambda>n. True) (py_int int_of c)"
  by (cases c) (simp_all add: caught_or_def py_int_def key_or_value_error_def split: option.splits)

lemma caught_or_py_float: "c \<noteq> PyNone \<Longrightarrow> caught_or (\<lambda>x. True) (py_float float_of c)"
  by (cases c) (simp_all add: caught_or_def py_float_def key_or_value_error_def split: option.splits)

lemma stops_row_full:
  assumes "PyNone \<notin> ran r"
  shows "caught_or (\<lambda>s'. trip_stops s' = trip_stops s) (stops_row float_of r s)"
  unfolding stops_row_def Let_def
  by (intro caught_or_bind [OF caught_or_getitem [OF assms]] caught_or_bind [OF caught_or_py_float]
        caught_or_Inr) simp_all

lemma routes_row_full:
  assumes "PyNone \<notin> ran r"
  shows "caught_or (\<lambda>s'. trip_stops s' = trip_stops s) (routes_row int_of r s)"
proof -
  have "caught_or (\<lambda>n. True) (case r ''route_type'' of None \<Rightarrow> Inr 3 | Some c \<Rightarrow> py_int int_of c)"
  proof (cases "r ''route_type''")
    case None
    then show ?thesis by (simp add: caught_or_def)
  next
    case (Some c)
    with assms have "c \<noteq> PyNone" by (auto simp: ran_def)
    with Some show ?thesis by (simp add: caught_or_py_int)
  qed
  then show ?thesis
    unfolding routes_row_def Let_def
    by (intro caught_or_bind [OF caught_or_getitem [OF assms]] caught_or_bind [of "\<lambda>n. True"]
          caught_or_Inr) simp_all
qed

lemma trips_row_cases:
  "(\<exists>s'. trips_row r s = Inr s' \<and> trip_stops s' = trip_stops s) \<or> trips_row r s = Inl KeyError"
  by (cases "r ''trip_id''"; cases "r ''route_id''")
     (simp_all add: trips_row_def bind_exc_def getitem_def Let_def split: option.splits)

lemma shapes_row_full:
  assumes "PyNone \<notin> ran r"
  shows "caught_or (\<lambda>sp'. True) (shapes_row int_of float_of r sp)"
  unfolding shapes_row_def
  by (intro caught_or_bind [OF caught_or_getitem [OF assms]] caught_or_bind [OF caught_or_py_float]
        caught_or_bind [OF caught_or_py_int] caught_or_Inr) simp_all

lemma string_ids_append:
  "string_ids s \<Longrightarrow> sid \<noteq> PyNone \<Longrightarrow>
     string_ids (s\<lparr>trip_stops := dict_append tid (seq, sid) (trip_stops s)\<rparr>)"
  unfolding string_ids_def
proof (intro ballI, clarify)
  fix k ps q c
  assume all: "\<forall>(trip_id, pairs) \<in> set (trip_stops s). \<forall>(seq, sid) \<in> set pairs. sid \<noteq> PyNone"
    and sid: "sid \<noteq> PyNone"
    and mem: "(k, ps) \<in> set (trip_stops (s\<lparr>trip_stops := dict_append tid (seq, sid) (trip_stops s)\<rparr>))"
    and q: "(q, PyNone) \<in> set ps"
  from mem have "(k, ps) \<in> set (dict_append tid (seq, sid) (trip_stops s))" by simp
  from dict_append_members [OF this q] sid all show False by auto
qed

lemma stop_times_row_full:
  assumes "PyNone \<notin> ran r" and "string_ids s"
  shows "caught_or string_ids (stop_times_row int_of K r s)"
  unfolding stop_times_row_def
proof (intro caught_or_bind [OF caught_or_getitem [OF assms(1)]])
  fix tid assume "tid \<noteq> PyNone"
  show "caught_or string_ids
     (if tid \<notin> K then Inr s
      else bind_exc (getitem r ''stop_id'') (\<lambda>sid.
           bind_exc (getitem r ''stop_sequence'') (\<lambda>seq_c.
           bind_exc (py_int int_of seq_c) (\<lambda>seq.
             Inr (s\<lparr>trip_stops := dict_append tid (seq, sid) (trip_stops s)\<rparr>)))))"
  proof (cases "tid \<in> K")
    case False
    with assms(2) show ?thesis by (simp add: caught_or_def)
  next
    case True
    have "caught_or string_ids
       (bind_exc (getitem r ''stop_id'') (\<lambda>sid.
        bind_exc (getitem r ''stop_sequence'') (\<lambda>seq_c.
        bind_exc (py_int int_of seq_c) (\<lambda>seq.
          Inr (s\<lparr>trip_stops := dict_append tid (seq, sid) (trip_stops s)\<rparr>)))))"
      by (intro caught_or_bind [OF caught_or_getitem [OF assms(1)]]
            caught_or_bind [OF caught_or_py_int] caught_or_Inr string_ids_append [OF assms(2)])
    with True show ?thesis by simp
  qed
qed

lemma string_ids_same:
  "trip_stops s' = trip_stops s \<Longrightarrow> string_ids s \<Longrightarrow> string_ids s'"
  by (simp add: string_ids_def)

lemma parse_stops_full:
  fixes s :: "'f parser" and float_of :: "string \<Rightarrow> 'f option"
  assumes "\<forall>r \<in> set rows. PyNone \<notin> ran r" and "string_ids s"
  shows "\<exists>s'. parse_stops float_of rows s = Inr s' \<and> string_ids s'"
  unfolding parse_stops_def
proof (rule for_rows_invariant [where I = string_ids, OF assms(2)])
  fix r and s0 :: "'f parser" assume "r \<in> set rows" "string_ids s0"
  with assms(1) caught_or_cases [OF stops_row_full [of r s0 float_of]]
  show "(\<exists>s'. stops_row float_of r s0 = Inr s' \<and> string_ids s')
      \<or> (\<exists>e. stops_row float_of r s0 = Inl e \<and> key_or_value_error e)"
    by (auto intro: string_ids_same)
qed

lemma parse_routes_full:
  fixes s :: "'f parser"
  assumes "\<forall>r \<in> set rows. PyNone \<notin> ran r" and "string_ids s"
  shows "\<exists>s'. parse_routes int_of rows s = Inr s' \<and> string_ids s'"
  unfolding parse_routes_def
proof (rule for_rows_invariant [where I = string_ids, OF assms(2)])
  fix r and s0 :: "'f parser" assume "r \<in> set rows" "string_ids s0"
  with assms(1) caught_or_cases [OF routes_row_full [of r s0 int_of]]
  show "(\<exists>s'. routes_row int_of r s0 = Inr s' \<and> string_ids s')
      \<or> (\<exists>e. routes_row int_of r s0 = Inl e \<and> key_or_value_error e)"
    by (auto intro: string_ids_same)
qed

lemma parse_trips_total:
  fixes s :: "'f parser"
  assumes "string_ids s"
  shows "\<exists>s'. parse_trips rows s = Inr s' \<and> string_ids s'"
  unfolding parse_trips_def
proof (rule for_rows_invariant [where I = string_ids, OF assms])
  fix r and s0 :: "'f parser" assume "string_ids s0"
  with trips_row_cases [of r s0]
  show "(\<exists>s'. trips_row r s0 = Inr s' \<and> string_ids s')
      \<or> (\<exists>e. trips_row r s0 = Inl e \<and> key_error e)"
    by (auto simp: key_error_def intro: string_ids_same)
qed

lemma parse_shapes_full:
  fixes s :: "'f parser" and float_of :: "string \<Rightarrow> 'f option"
  assumes "\<forall>r \<in> set rows. PyNone \<notin> ran r" and "string_ids s"
  shows "\<exists>s'. parse_shapes int_of float_of rows s = Inr s' \<and> string_ids s'"
proof -
  have "\<exists>sp. for_rows key_or_value_error (shapes_row int_of float_of) rows [] = Inr sp \<and> True"
  proof (rule for_rows_invariant [where I = "\<lambda>sp. True"])
    fix r and sp :: "'f shape_points" assume "r \<in> set rows"
    with assms(1) caught_or_cases [OF shapes_row_full [of r int_of float_of sp]]
    show "(\<exists>sp'. shapes_row int_of float_of r sp = Inr sp' \<and> True)
        \<or> (\<exists>e. shapes_row int_of float_of r sp = Inl e \<and> key_or_value_error e)"
      by auto
  qed simp
  then obtain sp where "for_rows key_or_value_error (shapes_row int_of float_of) rows [] = Inr sp"
    by blast
  with assms(2) show ?thesis
    by (simp add: parse_shapes_def string_ids_def)
qed

lemma parse_stop_times_full:
  fixes s :: "'f parser"
  assumes "\<forall>r \<in> set rows. PyNone \<notin> ran r" and "string_ids s"
  shows "\<exists>s'. parse_stop_times int_of rows s = Inr s' \<and> string_ids s'"
  unfolding parse_stop_times_def
proof (rule for_rows_invariant [where I = string_ids, OF assms(2)])
  fix r and s0 :: "'f parser" assume "r \<in> set rows" "string_ids s0"
  with assms(1)
    caught_or_cases [OF stop_times_row_full [of r s0 int_of "dom (trip_to_route s)"]]
  show "(\<exists>s'. stop_times_row int_of (dom (trip_to_route s)) r s0 = Inr s' \<and> string_ids s')
      \<or> (\<exists>e. stop_times_row int_of (dom (trip_to_route s)) r s0 = Inl e \<and> key_or_value_error e)"
    by blast
qed

lemma sorted_stop_ids_strings:
  "\<forall>(seq, sid) \<in> set pairs. sid \<noteq> PyNone \<Longrightarrow> \<exists>ids. sorted_stop_ids pairs = Inr ids"
  by (auto simp: sorted_stop_ids_def mixed_tie_def)

lemma group_trips_strings:
  "\<forall>(trip_id, pairs) \<in> set ts. \<forall>(seq, sid) \<in> set pairs. sid \<noteq> PyNone \<Longrightarrow>
     \<exists>g. group_trips self ts rt = Inr g"
proof (induction ts arbitrary: rt)
  case Nil
  show ?case by simp
next
  case (Cons a ts)
  obtain tid pairs where a: "a = (tid, pairs)" by (cases a)
  from Cons.prems a have "\<forall>(seq, sid) \<in> set pairs. sid \<noteq> PyNone" by simp
  from sorted_stop_ids_strings [OF this] obtain ids where ids: "sorted_stop_ids pairs = Inr ids" ..
  from Cons.prems have rest: "\<forall>(trip_id, pairs) \<in> set ts. \<forall>(seq, sid) \<in> set pairs. sid \<noteq> PyNone"
    by simp
  show ?case
    unfolding a using Cons.IH [OF rest] ids
    by (simp split: option.splits)
qed

lemma build_routes_strings:
  "string_ids s \<Longrightarrow> \<exists>s'. build_routes s = Inr s'"
  using group_trips_strings [of "trip_stops s" s "[]"]
  by (auto simp: build_routes_def bind_exc_def string_ids_def)

lemma parse_table_full:
  assumes "full_rows zf" and "string_ids s"
    and "\<And>rows s. \<forall>r \<in> set rows. PyNone \<notin> ran r \<Longrightarrow> string_ids s \<Longrightarrow>
           \<exists>s'. pass rows s = Inr s' \<and> string_ids s'"
  shows "\<exists>s'. parse_table zf name pass s = Inr s' \<and> string_ids s'"
proof (cases "zf name")
  case None
  with assms(2) show ?thesis by (simp add: parse_table_def)
next
  case (Some rows)
  with assms(1) have "\<forall>r \<in> set rows. PyNone \<notin> ran r"
    by (auto simp: full_rows_def ran_def)
  from assms(3) [OF this assms(2)] Some show ?thesis by (simp add: parse_table_def)
qed

text \<open>
  When no data line of the archive is shorter than its header, and the parser starts
  with string stop ids only (a new parser has none), \<^verbatim>\<open>_parse_zip\<close> returns
  \<^verbatim>\<open>True\<close>, whatever else the rows hold and whichever tables are missing.
\<close>

theorem parse_zip_full_rows:
  assumes "full_rows zf" and "string_ids self"
  shows "\<exists>s. parse_zip int_of float_of (Some zf) self = Inr (True, s)"
proof -
  from parse_table_full [OF assms, of "parse_stops float_of" "''stops.txt''"] parse_stops_full
  obtain s1 where s1: "parse_table zf ''stops.txt'' (parse_stops float_of) self = Inr s1"
    "string_ids s1" by blast
  from parse_table_full [OF assms(1) s1(2), of "parse_routes int_of" "''routes.txt''"] parse_routes_full
  obtain s2 where s2: "parse_table zf ''routes.txt'' (parse_routes int_of) s1 = Inr s2"
    "string_ids s2" by blast
  from parse_table_full [OF assms(1) s2(2), of parse_trips "''trips.txt''"] parse_trips_total
  obtain s3 where s3: "parse_table zf ''trips.txt'' parse_trips s2 = Inr s3"
    "string_ids s3" by blast
  from parse_table_full [OF assms(1) s3(2), of "parse_shapes int_of float_of" "''shapes.txt''"]
    parse_shapes_full
  obtain s4 where s4: "parse_table zf ''shapes.txt'' (parse_shapes int_of float_of) s3 = Inr s4"
    "string_ids s4" by blast
  from parse_table_full [OF assms(1) s4(2), of "parse_stop_times int_of" "''stop_times.txt''"]
    parse_stop_times_full
  obtain s5 where s5: "parse_table zf ''stop_times.txt'' (parse_stop_times int_of) s4 = Inr s5"
    "string_ids s5" by blast
  from build_routes_strings [OF s5(2)] obtain s6 where "build_routes s5 = Inr s6" ..
  with s1 s2 s3 s4 s5 show ?thesis
    by (simp add: parse_zip_def parse_zip_with_def bind_exc_def)
qed

lemma ran_upd_subset: "ran (m(k \<mapsto> v)) \<subseteq> insert v (ran m)"
  by (auto simp: ran_def split: if_splits)

lemma not_in_ran_upd: "c \<notin> ran m \<Longrightarrow> c \<noteq> v \<Longrightarrow> c \<notin> ran (m(k \<mapsto> v))"
  using ran_upd_subset [of m k v] by blast

lemma full_rows_empty: "full_rows Map.empty"
  by (simp add: full_rows_def)

lemma full_rows_upd:
  "full_rows zf \<Longrightarrow> \<forall>r \<in> set rows. PyNone \<notin> ran r \<Longrightarrow> full_rows (zf(name \<mapsto> rows))"
  unfolding full_rows_def using ran_upd_subset [of zf name rows] by blast

lemma full_rows_loop_archive: "full_rows loop_archive"
  unfolding loop_archive_def
  by (intro full_rows_upd full_rows_empty) (simp_all add: not_in_ran_upd)

theorem parse_zip_full_rows_witness:
  "full_rows loop_archive \<and> string_ids (new_parser :: int parser)
   \<and> (\<exists>s. parse_zip decimal decimal (Some loop_archive) (new_parser :: int parser) = Inr (True, s))"
proof -
  have "string_ids (new_parser :: int parser)"
    by (simp add: string_ids_def new_parser_def)
  moreover from parse_zip_full_rows [OF full_rows_loop_archive this]
  have "\<exists>s. parse_zip decimal decimal (Some loop_archive) (new_parser :: int parser) = Inr (True, s)" .
  ultimately show ?thesis
    using full_rows_loop_archive by (intro conjI)
qed

end
